theory Spec2Isabelle
  imports Complex_Main "HOL-Library.Word" "HOL-Library.Signed_Division"
begin

section \<open>Numbers of the program\<close>

subsection \<open>The C++ type int\<close>

text \<open>
  Timesteps and sample counts are C++ \<^verbatim>\<open>int\<close>s: 32-bit two's-complement words, read by
  \<open>sint\<close>, compared by \<open>\<le>s\<close>. Signed overflow (\<^verbatim>\<open>dt+dt\<close>, \<^verbatim>\<open>t-t0\<close>, \<^verbatim>\<open>2*n\<close>) is undefined
  in C++; the model gives it the wrap-around of the usual targets.

  Isotope identifiers (\<^verbatim>\<open>typedef int Iso\<close>, \<^verbatim>\<open>typedef int Elem\<close>) are only compared and
  divided by 1000, which cannot overflow: they are modelled as \<open>int\<close>, and \<^verbatim>\<open>iso/1000\<close> is
  the truncating division \<open>sdiv\<close>.
\<close>

type_synonym cint = "32 word"
type_synonym Iso = int
type_synonym Elem = int

subsection \<open>The C++ type double\<close>

text \<open>
  A \<^verbatim>\<open>double\<close> is an IEEE 754 binary64 number: a finite value, given here by the real
  number it stands for, or one of the three special values. Zero carries no sign (a
  zero divisor is read as \<open>+0\<close>).
\<close>

datatype double = Fin real | PInf | NInf | NaN

definition inf_of :: "real \<Rightarrow> double" where
  "inf_of s = (if 0 < s then PInf else if s < 0 then NInf else NaN)"

text \<open>
  Rounding. The result of an operation on finite operands is its exact value rounded to
  the nearest double, ties to the even significand (the default rounding mode); a
  rounded value beyond the largest double \<^verbatim>\<open>DBL_MAX\<close> is an infinity, and a value below
  half the smallest subnormal number is zero. \<open>fl x\<close> is that rounding: a double has a
  significand of 53 bits, so between \<^verbatim>\<open>2^e\<close> and \<^verbatim>\<open>2^(e+1)\<close> the doubles are the multiples
  of \<^verbatim>\<open>2^(e-52)\<close>, and below \<^verbatim>\<open>2^-1022\<close> (the subnormal numbers) the multiples of
  \<^verbatim>\<open>2^-1074\<close>. \<open>round_even\<close> rounds to the nearest integer, ties to even. \<open>is_double x\<close>
  says that the real \<open>x\<close> is the value of a double.
\<close>

definition round_even :: "real \<Rightarrow> int" where
  "round_even q =
     (let f = \<lfloor>q\<rfloor>; d = q - of_int f
      in if d < 1 / 2 then f else if 1 / 2 < d then f + 1 else if even f then f else f + 1)"

definition DBL_MAX :: real where
  "DBL_MAX = (2 ^ 53 - 1) * 2 ^ 971"

definition fl :: "real \<Rightarrow> double" where
  "fl x =
     (if x = 0 then Fin 0
      else
        let e = max \<lfloor>log 2 \<bar>x\<bar>\<rfloor> (- 1022);
            ulp = 2 powi (e - 52);
            y = of_int (round_even (x / ulp)) * ulp
        in if DBL_MAX < \<bar>y\<bar> then inf_of x else Fin y)"

definition is_double :: "real \<Rightarrow> bool" where
  "is_double x = (fl x = Fin x)"


text \<open>
  The arithmetic operators: on finite operands the rounded exact result, a division by
  zero an infinity or NaN, and the IEEE rules at the special values.
\<close>

instantiation double :: "{zero, uminus, plus, minus, times, inverse}"
begin

definition zero_double :: double where
  "zero_double = Fin 0"

fun uminus_double :: "double \<Rightarrow> double" where
  "uminus_double (Fin a) = Fin (- a)"
| "uminus_double PInf = NInf"
| "uminus_double NInf = PInf"
| "uminus_double NaN = NaN"

fun plus_double :: "double \<Rightarrow> double \<Rightarrow> double" where
  "plus_double (Fin a) (Fin b) = fl (a + b)"
| "plus_double NaN _ = NaN"
| "plus_double _ NaN = NaN"
| "plus_double PInf NInf = NaN"
| "plus_double NInf PInf = NaN"
| "plus_double PInf _ = PInf"
| "plus_double _ PInf = PInf"
| "plus_double NInf _ = NInf"
| "plus_double _ NInf = NInf"

definition minus_double :: "double \<Rightarrow> double \<Rightarrow> double" where
  "minus_double a b = a + (- b)"

fun times_double :: "double \<Rightarrow> double \<Rightarrow> double" where
  "times_double (Fin a) (Fin b) = fl (a * b)"
| "times_double NaN _ = NaN"
| "times_double _ NaN = NaN"
| "times_double (Fin a) PInf = inf_of a"
| "times_double (Fin a) NInf = inf_of (- a)"
| "times_double PInf (Fin b) = inf_of b"
| "times_double NInf (Fin b) = inf_of (- b)"
| "times_double PInf PInf = PInf"
| "times_double PInf NInf = NInf"
| "times_double NInf PInf = NInf"
| "times_double NInf NInf = PInf"

fun divide_double :: "double \<Rightarrow> double \<Rightarrow> double" where
  "divide_double (Fin a) (Fin b) = (if b = 0 then inf_of a else fl (a / b))"
| "divide_double NaN _ = NaN"
| "divide_double _ NaN = NaN"
| "divide_double (Fin a) PInf = Fin 0"
| "divide_double (Fin a) NInf = Fin 0"
| "divide_double PInf (Fin b) = (if 0 \<le> b then PInf else NInf)"
| "divide_double NInf (Fin b) = (if 0 \<le> b then NInf else PInf)"
| "divide_double PInf PInf = NaN"
| "divide_double PInf NInf = NaN"
| "divide_double NInf PInf = NaN"
| "divide_double NInf NInf = NaN"

fun inverse_double :: "double \<Rightarrow> double" where
  "inverse_double (Fin a) = (if a = 0 then PInf else fl (1 / a))"
| "inverse_double PInf = Fin 0"
| "inverse_double NInf = Fin 0"
| "inverse_double NaN = NaN"

instance ..

end

text \<open>
  The implicit conversion of an \<^verbatim>\<open>int\<close> operand in a \<^verbatim>\<open>double\<close> expression: every 32-bit
  integer is the value of a double, and the conversion is exact.
\<close>

definition of_cint :: "cint \<Rightarrow> double" where
  "of_cint n = Fin (real_of_int (sint n))"

subsection \<open>Library functions on doubles\<close>

text \<open>
  \<^verbatim>\<open>std::pow(x, y)\<close> at a finite exponent, by the C99 rules for the special cases. The
  solver calls it with the exponents \<open>0.5\<close> and \<open>2\<close> only. The library functions are
  taken to return their exact value rounded as the operators round. Of this the
  statements below use only what every faithful implementation shares: that \<^verbatim>\<open>exp\<close>
  overflows, the value where the exact value is a double, and that a rounded value lies
  between the powers of two that bound the exact one.
\<close>

definition is_integer :: "real \<Rightarrow> bool" where
  "is_integer y = (real_of_int \<lfloor>y\<rfloor> = y)"

definition odd_integer :: "real \<Rightarrow> bool" where
  "odd_integer y = (is_integer y \<and> odd \<lfloor>y\<rfloor>)"

fun pow :: "double \<Rightarrow> real \<Rightarrow> double" where
  "pow (Fin x) y =
     (if 0 < x then fl (x powr y)
      else if x = 0 then (if y = 0 then Fin 1 else if 0 < y then Fin 0 else PInf)
      else if is_integer y then fl (x powi \<lfloor>y\<rfloor>)
      else NaN)"
| "pow PInf y = (if y = 0 then Fin 1 else if 0 < y then PInf else Fin 0)"
| "pow NInf y =
     (if y = 0 then Fin 1
      else if 0 < y then (if odd_integer y then NInf else PInf)
      else Fin 0)"
| "pow NaN y = (if y = 0 then Fin 1 else NaN)"


text \<open>
  \<^verbatim>\<open>exp\<close> of \<^verbatim>\<open><cmath>\<close>: it overflows to plus infinity (from an argument of about 709.8 on) and
  underflows to 0, by the rounding.
\<close>

fun exp_d :: "double \<Rightarrow> double" where
  "exp_d (Fin x) = fl (exp x)"
| "exp_d PInf = PInf"
| "exp_d NInf = Fin 0"
| "exp_d NaN = NaN"

text \<open>
  The error function by its Maclaurin series, and the complementary error function
  \<open>erfc x = 1 - erf x\<close>. \<^verbatim>\<open>boost::math::erfc\<close> computes it on finite arguments; from 28 on,
  where the exact value is far below the smallest subnormal number, it returns 0, and
  up to \<open>-28\<close> it returns \<open>2 - 0\<close>. At the infinities it returns the limits 0 and 2. At NaN
  the model passes NaN through, as \<^verbatim>\<open>std::erfc\<close> does; what the library does there depends
  on its version, and no statement below rests on it.
\<close>

definition erf :: "real \<Rightarrow> real" where
  "erf x = 2 / sqrt pi * (\<Sum>n. (- 1) ^ n * x ^ (2 * n + 1) / (fact n * real (2 * n + 1)))"

definition erfc :: "real \<Rightarrow> real" where
  "erfc x = 1 - erf x"

fun erfc_d :: "double \<Rightarrow> double" where
  "erfc_d (Fin x) = (if 28 \<le> x then Fin 0 else if x \<le> - 28 then Fin 2 else fl (erfc x))"
| "erfc_d PInf = Fin 0"
| "erfc_d NInf = Fin 2"
| "erfc_d NaN = NaN"

section \<open>Isotope-keyed maps\<close>

text \<open>
  \<^verbatim>\<open>IsoConcMap\<close>, \<^verbatim>\<open>ConcGradMap\<close> and \<^verbatim>\<open>IsoFluxMap\<close> are \<^verbatim>\<open>std::map<int, double>\<close>: an
  association list in ascending key order, which is the order a C++ iterator walks.
  \<open>count_m\<close> is \<^verbatim>\<open>m.count(k)\<close>; \<open>at_m\<close> is the value read by \<^verbatim>\<open>m[k]\<close> (a missing key reads
  as the value-initialised \<open>0.0\<close>; the insertion it makes is into a by-value copy);
  \<open>assign_m\<close> is \<^verbatim>\<open>m[k] = v\<close>; \<open>insert_m\<close> is \<^verbatim>\<open>m.insert(make_pair(k, v))\<close>, which keeps
  an entry that is already there.
\<close>

type_synonym IsoConcMap = "(Iso \<times> double) list"
type_synonym ConcGradMap = "(Iso \<times> double) list"
type_synonym IsoFluxMap = "(Iso \<times> double) list"

definition count_m :: "('k \<times> 'v) list \<Rightarrow> 'k \<Rightarrow> nat" where
  "count_m m k = (case map_of m k of None \<Rightarrow> 0 | Some _ \<Rightarrow> 1)"

definition at_m :: "('k \<times> double) list \<Rightarrow> 'k \<Rightarrow> double" where
  "at_m m k = (case map_of m k of None \<Rightarrow> Fin 0 | Some v \<Rightarrow> v)"

fun assign_m :: "'k::linorder \<Rightarrow> 'v \<Rightarrow> ('k \<times> 'v) list \<Rightarrow> ('k \<times> 'v) list" where
  "assign_m k v [] = [(k, v)]"
| "assign_m k v ((j, w) # es) =
     (if k < j then (k, v) # (j, w) # es
      else if k = j then (k, v) # es
      else (j, w) # assign_m k v es)"

definition insert_m :: "'k::linorder \<Rightarrow> 'v \<Rightarrow> ('k \<times> 'v) list \<Rightarrow> ('k \<times> 'v) list" where
  "insert_m k v m = (if count_m m k \<noteq> 0 then m else assign_m k v m)"

section \<open>Data of a cell\<close>

text \<open>
  The classes \<^verbatim>\<open>Material\<close>, \<^verbatim>\<open>IsoVector\<close>, \<^verbatim>\<open>CompMap\<close>, \<^verbatim>\<open>Geometry\<close> and \<^verbatim>\<open>MatDataTable\<close>
  are used by \<^verbatim>\<open>OneDimPPMNuclide.cpp\<close> and declared elsewhere.

  A material parcel (\<^verbatim>\<open>mat_rsrc_ptr\<close>) is its isotope-to-mass mapping (spec, section 3),
  with finite masses in kg. A \<^verbatim>\<open>CompMap\<close> is a \<^verbatim>\<open>std::map<int, double>\<close>, an \<^verbatim>\<open>IsoVector\<close>
  wraps one. The getters of a \<^verbatim>\<open>Geometry\<close> and the dispersion coefficient of a
  \<^verbatim>\<open>MatDataTable\<close> are read-only inputs: fields here.
\<close>

type_synonym Material = "(Iso \<times> real) list"
type_synonym CompMap = "(Iso \<times> double) list"

datatype IsoVector = IsoVector (comp: CompMap)

record Geometry =
  inner_radius :: double
  outer_radius :: double
  radial_midpoint :: double
  volume :: double

record MatDataTable =
  D :: "Elem \<Rightarrow> double"

text \<open>
  The members of \<^verbatim>\<open>OneDimPPMNuclide\<close> and of its base class that the methods below use,
  each under the name of its getter (\<^verbatim>\<open>v()\<close> returns \<^verbatim>\<open>v_\<close>, and so on: a name of Isabelle
  cannot end with an underscore). \<^verbatim>\<open>wastes\<close> is the \<^verbatim>\<open>deque\<close> of parcels, oldest first.
  The two histories are \<^verbatim>\<open>std::map\<close>s keyed by timestep that the program only reads and
  writes at one key: functions of the timestep, written by function update. What the
  base class's getter \<^verbatim>\<open>conc_hist(time)\<close> returns at a timestep that was never written is
  thereby left open.
\<close>

record OneDimPPMNuclide =
  v :: double
  porosity :: double
  rho :: double
  Co :: IsoConcMap
  Ci :: IsoConcMap
  geom :: Geometry
  last_updated :: cint
  wastes :: "Material list"
  vec_hist :: "cint \<Rightarrow> IsoVector \<times> double"
  conc_hist :: "cint \<Rightarrow> IsoConcMap"
  mat_table :: MatDataTable

text \<open>
  A failed \<^verbatim>\<open>assert\<close> aborts the program; an exception ends the call. Both are the
  \<open>Inl\<close> results of the model. \<open>UndefinedBehaviour\<close> stands for a store through
  \<^verbatim>\<open>vector::operator[]\<close> outside the vector, and for the conversion to an index of a
  \<^verbatim>\<open>double\<close> that has none.
\<close>

datatype error = AssertionFailed | InsufficientInventory | UndefinedBehaviour

section \<open>Helpers of MatTools and of the base class\<close>

text \<open>
  Modelled from the spec: \<^verbatim>\<open>MatTools::sum_mats\<close> is not in the sources. Spec, section 4.2:
  "sum all ledger parcels to total mass". It returns the summed parcels as an isotope
  vector of masses, and the total mass: \<open>quantity\<close> is the mass of one parcel,
  \<open>ledger_mass\<close> that of all, and \<open>add_iso\<close> adds one entry of a parcel to the sum.
\<close>

definition quantity :: "Material \<Rightarrow> real" where
  "quantity p = sum_list (map snd p)"

definition ledger_mass :: "Material list \<Rightarrow> real" where
  "ledger_mass ws = sum_list (map quantity ws)"

definition add_iso :: "Iso \<times> real \<Rightarrow> CompMap \<Rightarrow> CompMap" where
  "add_iso e acc = assign_m (fst e) (at_m acc (fst e) + Fin (snd e)) acc"

definition sum_mats :: "Material list \<Rightarrow> IsoVector \<times> double" where
  "sum_mats mats = (IsoVector (fold add_iso (concat mats) []), Fin (ledger_mass mats))"

text \<open>
  Modelled from the spec: \<^verbatim>\<open>MatTools::V_f\<close> is not in the sources. Spec, glossary:
  "Pore volume: volume accessible to fluid/solute = total volume \<times> porosity".
\<close>

definition MatTools_V_f :: "double \<Rightarrow> double \<Rightarrow> double" where
  "MatTools_V_f V_T theta = V_T * theta"

text \<open>
  Modelled from the spec: \<^verbatim>\<open>MatTools::comp_to_conc_map\<close> is not in the sources. Spec,
  section 4.2: "convert to a concentration map via pore volume"; section 3: a
  concentration is mass per volume. The composition it is given is the one \<open>sum_mats\<close>
  returns, which holds the isotopes' masses (their total is the argument \<open>mass\<close>): the
  concentration of an isotope is its mass divided by the volume.
\<close>

definition comp_to_conc_map :: "CompMap \<Rightarrow> double \<Rightarrow> double \<Rightarrow> IsoConcMap" where
  "comp_to_conc_map cm mass vol = map (\<lambda>(iso, m_iso). (iso, m_iso / vol)) cm"

text \<open>
  Modelled from the spec: \<^verbatim>\<open>MatTools::scaleConcMap\<close> and \<^verbatim>\<open>MatTools::addConcMaps\<close> are not
  in the sources. Spec, section 9: "every transform (scale/add/subtract) returns a new
  map". Scaling multiplies every concentration; adding sums isotope by isotope over the
  union of the isotopes.
\<close>

definition scaleConcMap :: "IsoConcMap \<Rightarrow> double \<Rightarrow> IsoConcMap" where
  "scaleConcMap C_0 scalar = map (\<lambda>(iso, c). (iso, c * scalar)) C_0"

definition addConcMaps :: "IsoConcMap \<Rightarrow> IsoConcMap \<Rightarrow> IsoConcMap" where
  "addConcMaps orig to_add =
     fold (\<lambda>(iso, c) to_ret. assign_m iso (at_m to_ret iso + c) to_ret) to_add orig"

text \<open>
  Modelled from the spec: \<^verbatim>\<open>NuclideModel::calc_conc_grad\<close> is not in the sources. Spec,
  section 4.3: "compute one-sided difference gradient (c_ext - c_int)/(r_ext - r_int)".
\<close>

definition calc_conc_grad :: "double \<Rightarrow> double \<Rightarrow> double \<Rightarrow> double \<Rightarrow> double" where
  "calc_conc_grad c_ext c_int r_ext r_int = (c_ext - c_int) / (r_ext - r_int)"

definition set_last_updated :: "OneDimPPMNuclide \<Rightarrow> cint \<Rightarrow> OneDimPPMNuclide" where
  "set_last_updated this t = this\<lparr>last_updated := t\<rparr>"

section \<open>The methods of OneDimPPMNuclide\<close>

definition V_T :: "OneDimPPMNuclide \<Rightarrow> double" where
  "V_T this = volume (geom this)"

definition V_f :: "OneDimPPMNuclide \<Rightarrow> double" where
  "V_f this = MatTools_V_f (V_T this) (porosity this)"

subsection \<open>The analytic solver\<close>

text \<open>
  \<^verbatim>\<open>calculate_conc(C_0, C_i, r, iso, t0, t)\<close>, line by line. \<^verbatim>\<open>R\<close> is the constant 1; the
  integer literals and the timesteps are converted where they meet a \<^verbatim>\<open>double\<close>;
  \<^verbatim>\<open>t-t0\<close> is an \<^verbatim>\<open>int\<close> subtraction; the library's constant \<^verbatim>\<open>pi\<close> is the double next to
  the number pi. The parameter \<^verbatim>\<open>iso\<close> is written \<open>tope\<close> and the local \<^verbatim>\<open>D\<close> is written
  \<open>Dc\<close> (\<open>iso\<close> and \<open>D\<close> are constants here).
\<close>

definition calculate_conc ::
  "OneDimPPMNuclide \<Rightarrow> IsoConcMap \<Rightarrow> IsoConcMap \<Rightarrow> double \<Rightarrow> Iso \<Rightarrow> cint \<Rightarrow> cint \<Rightarrow> double" where
  "calculate_conc this C_0 C_i r tope t0 t =
     (let Dc = D (mat_table this) (tope sdiv 1000);
          R = Fin 1;
          At_frac = (R * r - v this * of_cint t) / (Fin 2 * pow (Dc * R * of_cint t) 0.5);
          At = Fin 0.5 * erfc_d At_frac;
          Att0_frac = (R * r - v this * of_cint t) / (Fin 2 * pow (Dc * R * of_cint (t - t0)) 0.5);
          Att0 = Fin 0.5 * erfc_d Att0_frac;
          A = At - Att0;
          B1_frac = (R * r - v this * of_cint t) / (Fin 2 * pow (Dc * R * of_cint t) 0.5);
          B1 = Fin 0.5 * erfc_d B1_frac;
          B2_exp = - pow (R * r - v this * of_cint t) 2 / (Fin 4 * Dc * R * of_cint t);
          B2 = pow (v this * v this * of_cint t / (fl pi * R * Dc)) 0.5 * exp_d B2_exp;
          B3_exp = v this * r / Dc;
          B3_frac = (R * r + v this * of_cint t) / (Fin 2 * pow (Dc * R * of_cint t) 0.5);
          B3_factor = Fin (- 0.5) * (Fin 1 + (v this * r) / Dc + (v this * v this * of_cint t) / (Dc * R));
          B3 = B3_factor * exp_d B3_exp * erfc_d B3_frac;
          B = at_m C_i tope * (B1 + B2 + B3);
          to_ret = at_m C_0 tope * A + B
      in to_ret)"

text \<open>
  The locals of the solver as functions of the arguments they depend on, each with the
  expression that \<^verbatim>\<open>calculate_conc\<close> gives it (\<^verbatim>\<open>D\<close> and \<^verbatim>\<open>R\<close> written out). Lemma
  \<open>calculate_conc_terms\<close> below puts them together to the value of the solver.
\<close>

definition solver_At :: "OneDimPPMNuclide \<Rightarrow> double \<Rightarrow> Iso \<Rightarrow> cint \<Rightarrow> double" where
  "solver_At this r tope t =
     Fin 0.5 * erfc_d ((Fin 1 * r - v this * of_cint t)
                       / (Fin 2 * pow (D (mat_table this) (tope sdiv 1000) * Fin 1 * of_cint t) 0.5))"

definition solver_Att0_frac :: "OneDimPPMNuclide \<Rightarrow> double \<Rightarrow> Iso \<Rightarrow> cint \<Rightarrow> cint \<Rightarrow> double" where
  "solver_Att0_frac this r tope t0 t =
     (Fin 1 * r - v this * of_cint t)
     / (Fin 2 * pow (D (mat_table this) (tope sdiv 1000) * Fin 1 * of_cint (t - t0)) 0.5)"

definition solver_Att0 :: "OneDimPPMNuclide \<Rightarrow> double \<Rightarrow> Iso \<Rightarrow> cint \<Rightarrow> cint \<Rightarrow> double" where
  "solver_Att0 this r tope t0 t = Fin 0.5 * erfc_d (solver_Att0_frac this r tope t0 t)"

definition solver_B1 :: "OneDimPPMNuclide \<Rightarrow> double \<Rightarrow> Iso \<Rightarrow> cint \<Rightarrow> double" where
  "solver_B1 this r tope t =
     Fin 0.5 * erfc_d ((Fin 1 * r - v this * of_cint t)
                       / (Fin 2 * pow (D (mat_table this) (tope sdiv 1000) * Fin 1 * of_cint t) 0.5))"

definition solver_B2 :: "OneDimPPMNuclide \<Rightarrow> double \<Rightarrow> Iso \<Rightarrow> cint \<Rightarrow> double" where
  "solver_B2 this r tope t =
     pow (v this * v this * of_cint t / (fl pi * Fin 1 * D (mat_table this) (tope sdiv 1000))) 0.5
     * exp_d (- pow (Fin 1 * r - v this * of_cint t) 2
              / (Fin 4 * D (mat_table this) (tope sdiv 1000) * Fin 1 * of_cint t))"

definition solver_B3_exp :: "OneDimPPMNuclide \<Rightarrow> double \<Rightarrow> Iso \<Rightarrow> double" where
  "solver_B3_exp this r tope = v this * r / D (mat_table this) (tope sdiv 1000)"

definition solver_B3_frac :: "OneDimPPMNuclide \<Rightarrow> double \<Rightarrow> Iso \<Rightarrow> cint \<Rightarrow> double" where
  "solver_B3_frac this r tope t =
     (Fin 1 * r + v this * of_cint t)
     / (Fin 2 * pow (D (mat_table this) (tope sdiv 1000) * Fin 1 * of_cint t) 0.5)"

definition solver_B3_factor :: "OneDimPPMNuclide \<Rightarrow> double \<Rightarrow> Iso \<Rightarrow> cint \<Rightarrow> double" where
  "solver_B3_factor this r tope t =
     Fin (- 0.5) * (Fin 1 + (v this * r) / D (mat_table this) (tope sdiv 1000)
                    + (v this * v this * of_cint t) / (D (mat_table this) (tope sdiv 1000) * Fin 1))"

definition solver_B3 :: "OneDimPPMNuclide \<Rightarrow> double \<Rightarrow> Iso \<Rightarrow> cint \<Rightarrow> double" where
  "solver_B3 this r tope t =
     solver_B3_factor this r tope t * exp_d (solver_B3_exp this r tope)
     * erfc_d (solver_B3_frac this r tope t)"


subsection \<open>The concentration history\<close>

text \<open>
  \<^verbatim>\<open>conc_profile\<close> passes its one map as both \<^verbatim>\<open>C_0\<close> and \<^verbatim>\<open>C_i\<close>, and \<^verbatim>\<open>dt\<close> and \<^verbatim>\<open>dt+dt\<close> as the
  two times. A loop over a map is a fold over its entries.
\<close>

definition conc_profile :: "OneDimPPMNuclide \<Rightarrow> IsoConcMap \<Rightarrow> double \<Rightarrow> cint \<Rightarrow> IsoConcMap" where
  "conc_profile this C_0 r dt =
     fold (\<lambda>(iso, _) to_ret. assign_m iso (calculate_conc this C_0 C_0 r iso dt (dt + dt)) to_ret)
       C_0 []"

definition update_vec_hist :: "OneDimPPMNuclide \<Rightarrow> cint \<Rightarrow> OneDimPPMNuclide" where
  "update_vec_hist this the_time =
     this\<lparr>vec_hist := (vec_hist this)(the_time := sum_mats (wastes this))\<rparr>"

definition update_conc_hist ::
  "OneDimPPMNuclide \<Rightarrow> cint \<Rightarrow> Material list \<Rightarrow> error + OneDimPPMNuclide" where
  "update_conc_hist this the_time mats =
     (if \<not> (last_updated this \<le>s the_time) then Inl AssertionFailed
      else
        let sum_pair = sum_mats mats;
            C_0 = comp_to_conc_map (comp (fst sum_pair)) (snd sum_pair) (V_f this);
            r_calc = radial_midpoint (geom this);
            to_ret = conc_profile this C_0 r_calc the_time;
            this1 = set_last_updated this the_time
        in Inr (this1\<lparr>conc_hist := (conc_hist this1)(the_time := to_ret)\<rparr>))"

definition update :: "OneDimPPMNuclide \<Rightarrow> cint \<Rightarrow> error + OneDimPPMNuclide" where
  "update this the_time =
     (let this1 = update_vec_hist this the_time
      in case update_conc_hist this1 the_time (wastes this1) of
           Inl e \<Rightarrow> Inl e
         | Inr this2 \<Rightarrow> Inr (set_last_updated this2 the_time))"

definition transportNuclides :: "OneDimPPMNuclide \<Rightarrow> cint \<Rightarrow> error + OneDimPPMNuclide" where
  "transportNuclides this the_time = update this the_time"

subsection \<open>The inventory ledger\<close>

definition absorb :: "OneDimPPMNuclide \<Rightarrow> Material \<Rightarrow> OneDimPPMNuclide" where
  "absorb this matToAdd = this\<lparr>wastes := wastes this @ [matToAdd]\<rparr>"

text \<open>
  Modelled from the spec: \<^verbatim>\<open>MatTools::extract\<close> is not in the sources. Spec, section 4.4:
  "removes exactly mass, proportioned by composition, oldest-parcel-first, splitting a
  parcel at the boundary of the requested amount; fails with InsufficientInventory if any
  requested isotope's available mass is less than demanded; returns the removed mass as
  a new parcel". The composition holds mass fractions, so the mass demanded of an
  isotope is its fraction of \<open>kg_to_rem\<close>; \<open>drain\<close> takes it from the parcels in their
  order, from each what it has until the demand is met.
\<close>

definition iso_mass :: "Material \<Rightarrow> Iso \<Rightarrow> real" where
  "iso_mass p i = sum_list (map snd (filter (\<lambda>e. fst e = i) p))"

definition available :: "Material list \<Rightarrow> Iso \<Rightarrow> real" where
  "available ws i = sum_list (map (\<lambda>p. iso_mass p i) ws)"

fun drain_parcel :: "Iso \<Rightarrow> real \<Rightarrow> Material \<Rightarrow> Material" where
  "drain_parcel i d [] = []"
| "drain_parcel i d ((j, m) # es) =
     (if j = i then (j, m - min m d) # drain_parcel i (d - min m d) es
      else (j, m) # drain_parcel i d es)"

fun drain :: "Iso \<Rightarrow> real \<Rightarrow> Material list \<Rightarrow> Material list" where
  "drain i d [] = []"
| "drain i d (p # ps) =
     drain_parcel i d p # drain i (d - (iso_mass p i - iso_mass (drain_parcel i d p) i)) ps"

definition demanded :: "Material \<Rightarrow> real \<Rightarrow> Material" where
  "demanded comp_to_rem kg_to_rem =
     map (\<lambda>i. (i, kg_to_rem * iso_mass comp_to_rem i)) (remdups (map fst comp_to_rem))"

definition MatTools_extract ::
  "Material \<Rightarrow> real \<Rightarrow> Material list \<Rightarrow> error + Material \<times> Material list" where
  "MatTools_extract comp_to_rem kg_to_rem mat_list =
     (let to_ret = demanded comp_to_rem kg_to_rem
      in if list_ex (\<lambda>(i, m). available mat_list i < m) to_ret then Inl InsufficientInventory
         else Inr (to_ret, fold (\<lambda>(i, m) l. drain i m l) to_ret mat_list))"

definition extract_comp ::
  "OneDimPPMNuclide \<Rightarrow> Material \<Rightarrow> real \<Rightarrow> error + Material \<times> OneDimPPMNuclide" where
  "extract_comp this comp_to_rem kg_to_rem =
     (case MatTools_extract comp_to_rem kg_to_rem (wastes this) of
        Inl e \<Rightarrow> Inl e
      | Inr (to_ret, ws) \<Rightarrow>
          (let this1 = this\<lparr>wastes := ws\<rparr>
           in case update this1 (last_updated this1) of
                Inl e \<Rightarrow> Inl e
              | Inr this2 \<Rightarrow> Inr (to_ret, this2)))"

text \<open>
  (\<^verbatim>\<open>extract\<close> is written \<open>extract_comp\<close>: the plain name is a command of Isabelle.)

  A sequence of ledger operations on a cell, with the mass absorbed and the mass
  extracted along it. An extraction that fails leaves the cell as it was (the exception
  is raised before the ledger is touched) and extracts nothing; the caller goes on.
\<close>

datatype ledger_op = Absorb Material | Extract Material real

fun run_ops :: "OneDimPPMNuclide \<Rightarrow> ledger_op list \<Rightarrow> OneDimPPMNuclide \<times> real \<times> real" where
  "run_ops this [] = (this, 0, 0)"
| "run_ops this (Absorb p # ops) =
     (case run_ops (absorb this p) ops of (this', a, e) \<Rightarrow> (this', quantity p + a, e))"
| "run_ops this (Extract comp_to_rem kg # ops) =
     (case extract_comp this comp_to_rem kg of
        Inl _ \<Rightarrow> run_ops this ops
      | Inr (to_ret, this1) \<Rightarrow>
          (case run_ops this1 ops of (this', a, e) \<Rightarrow> (this', a, quantity to_ret + e)))"

text \<open>
  The parcels and requests a cell is given: masses and mass fractions are not negative,
  and neither is the mass to remove.
\<close>

fun wf_op :: "ledger_op \<Rightarrow> bool" where
  "wf_op (Absorb p) = list_all (\<lambda>e. 0 \<le> snd e) p"
| "wf_op (Extract comp_to_rem kg) = (0 \<le> kg \<and> list_all (\<lambda>e. 0 \<le> snd e) comp_to_rem)"

text \<open>A parcel, and a ledger, with no negative mass.\<close>

definition nonneg :: "Material \<Rightarrow> bool" where
  "nonneg p = list_all (\<lambda>e. 0 \<le> snd e) p"

definition nonneg_ledger :: "Material list \<Rightarrow> bool" where
  "nonneg_ledger ws = list_all nonneg ws"

subsection \<open>The boundary conditions\<close>

definition source_term_bc :: "OneDimPPMNuclide \<Rightarrow> IsoVector \<times> double" where
  "source_term_bc this =
     (let conc_map = scaleConcMap (conc_hist this (last_updated this)) (V_f this);
          (comp_map, tot_mass) =
            fold (\<lambda>(iso, c) (comp_map, tot_mass). (assign_m iso c comp_map, tot_mass + c))
              conc_map ([], Fin 0)
      in (IsoVector comp_map, tot_mass))"

definition dirichlet_bc :: "OneDimPPMNuclide \<Rightarrow> IsoConcMap" where
  "dirichlet_bc this = conc_hist this (last_updated this)"

text \<open>
  Modelled from the spec: the base class's \<^verbatim>\<open>dirichlet_bc(Iso)\<close> is not in the sources.
  Spec, section 6: "dirichlet(isotope) -> value", the isotope's entry of the Dirichlet
  map.
\<close>

definition dirichlet_bc_iso :: "OneDimPPMNuclide \<Rightarrow> Iso \<Rightarrow> double" where
  "dirichlet_bc_iso this tope = at_m (dirichlet_bc this) tope"

definition neumann_bc :: "OneDimPPMNuclide \<Rightarrow> IsoConcMap \<Rightarrow> double \<Rightarrow> ConcGradMap" where
  "neumann_bc this c_ext r_ext =
     (let c_int = conc_hist this (last_updated this);
          r_int = radial_midpoint (geom this);
          to_ret1 =
            fold (\<lambda>(iso, _) to_ret.
                if count_m c_ext iso \<noteq> 0
                then assign_m iso (calc_conc_grad (at_m c_ext iso) (at_m c_int iso) r_ext r_int) to_ret
                else assign_m iso (calc_conc_grad 0 (at_m c_int iso) r_ext r_int) to_ret)
              c_int [];
          to_ret2 =
            fold (\<lambda>(iso, _) to_ret.
                if count_m c_int iso = 0
                then assign_m iso (calc_conc_grad (at_m c_ext iso) 0 r_ext r_int) to_ret
                else to_ret)
              c_ext to_ret1
      in to_ret2)"

definition cauchy_bc :: "OneDimPPMNuclide \<Rightarrow> IsoConcMap \<Rightarrow> double \<Rightarrow> IsoFluxMap" where
  "cauchy_bc this c_ext r_ext =
     (let neumann = neumann_bc this c_ext r_ext
      in fold (\<lambda>(iso, grad) to_ret.
             let elem = iso sdiv 1000
             in insert_m iso (- D (mat_table this) elem * grad + dirichlet_bc_iso this iso * v this)
                  to_ret)
           neumann [])"

subsection \<open>The trapezoidal rule\<close>

text \<open>
  \<^verbatim>\<open>fmap\<close> is a \<^verbatim>\<open>std::map<double, IsoConcMap>\<close>, its entries in ascending order of the
  radius. \<^verbatim>\<open>terms[(*f).first]\<close> indexes the vector \<^verbatim>\<open>terms\<close>, which holds two elements,
  by the radius of the sample: the \<^verbatim>\<open>double\<close> is converted to \<^verbatim>\<open>size_t\<close> (truncated;
  undefined when the truncated value is no \<^verbatim>\<open>size_t\<close>), and a store at an index of 2 or
  more is outside the vector.
\<close>

definition erase_m :: "('k \<times> 'v) list \<Rightarrow> 'k \<Rightarrow> ('k \<times> 'v) list" where
  "erase_m m k = filter (\<lambda>e. fst e \<noteq> k) m"

fun index_of :: "double \<Rightarrow> nat option" where
  "index_of (Fin x) = (if - 1 < x \<and> x < 2 ^ 64 then Some (nat \<lfloor>x\<rfloor>) else None)"
| "index_of PInf = None"
| "index_of NInf = None"
| "index_of NaN = None"

fun store_terms ::
  "double \<Rightarrow> (double \<times> IsoConcMap) list \<Rightarrow> IsoConcMap list \<Rightarrow> error + IsoConcMap list" where
  "store_terms scalar [] terms = Inr terms"
| "store_terms scalar ((key, f) # fs) terms =
     (case index_of key of
        None \<Rightarrow> Inl UndefinedBehaviour
      | Some i \<Rightarrow>
          if i < length terms
          then store_terms scalar fs (terms[i := scaleConcMap f (Fin 2 * scalar)])
          else Inl UndefinedBehaviour)"

definition trap_rule ::
  "double \<Rightarrow> double \<Rightarrow> cint \<Rightarrow> (double \<times> IsoConcMap) list \<Rightarrow> error + IsoConcMap" where
  "trap_rule a b n fmap =
     (let scalar = (b - a) / of_cint (2 * n);
          (f_0, fmap1) = (case map_of fmap a of
                            Some f \<Rightarrow> (f, erase_m fmap a)
                          | None \<Rightarrow> ([], fmap));
          (f_n, fmap2) = (case map_of fmap1 b of
                            Some f \<Rightarrow> (f, erase_m fmap1 b)
                          | None \<Rightarrow> ([], fmap1));
          terms = [f_0, f_n]
      in case store_terms scalar fmap2 terms of
           Inl e \<Rightarrow> Inl e
         | Inr terms' \<Rightarrow>
             Inr (fst (fold (\<lambda>t (to_ret, prev). (addConcMaps prev t, addConcMaps prev t))
                         terms' ([], []))))"

section \<open>An example cell\<close>

text \<open>
  A cell of radii 1 to 3 with no flow, unit dispersion coefficient for every element,
  and an empty ledger. The instances below are taken at it or at variants of it.
\<close>

definition cell0 :: OneDimPPMNuclide where
  "cell0 = \<lparr>v = Fin 0, porosity = Fin (1 / 2), rho = Fin 1, Co = [], Ci = [],
     geom = \<lparr>inner_radius = Fin 1, outer_radius = Fin 3, radial_midpoint = Fin 2,
       volume = Fin 10\<rparr>,
     last_updated = 0, wastes = [], vec_hist = (\<lambda>_. (IsoVector [], Fin 0)),
     conc_hist = (\<lambda>_. []), mat_table = \<lparr>D = (\<lambda>_. Fin 1)\<rparr>\<rparr>"

definition cell1 :: OneDimPPMNuclide where
  "cell1 = cell0\<lparr>v := Fin 1\<rparr>"

text \<open>The example cell holding one parcel of 10 kg of U-235.\<close>

definition cell2 :: OneDimPPMNuclide where
  "cell2 = cell0\<lparr>wastes := [[(92235, 10)]]\<rparr>"

text \<open>
  The cell with flow whose snapshot, at every timestep, holds U-235 at concentration 2
  and Am-241 at concentration 4.
\<close>

definition cell3 :: OneDimPPMNuclide where
  "cell3 = cell1\<lparr>conc_hist := (\<lambda>_. [(92235, Fin 2), (95241, Fin 4)])\<rparr>"

text \<open>The example cell with the flow velocity 56.\<close>

definition cell4 :: OneDimPPMNuclide where
  "cell4 = cell0\<lparr>v := Fin 56\<rparr>"

section \<open>Facts about the numbers\<close>

subsection \<open>Rounding\<close>

lemma round_even_of_int: "round_even (of_int z) = z"
  by (simp add: round_even_def)

lemma round_even_ge: "real_of_int a \<le> q \<Longrightarrow> a \<le> round_even q"
proof -
  assume "real_of_int a \<le> q"
  then have "a \<le> \<lfloor>q\<rfloor>" by (simp only: le_floor_iff)
  moreover have "\<lfloor>q\<rfloor> \<le> round_even q" by (simp add: round_even_def Let_def)
  ultimately show ?thesis by linarith
qed

lemma round_even_le: "q \<le> real_of_int b \<Longrightarrow> round_even q \<le> b"
proof -
  assume q: "q \<le> real_of_int b"
  have f: "\<lfloor>q\<rfloor> \<le> b" using q by (simp add: floor_le_iff)
  show ?thesis
  proof (cases "q - real_of_int \<lfloor>q\<rfloor> < 1 / 2")
    case True
    then show ?thesis using f by (simp add: round_even_def Let_def)
  next
    case False
    then have "real_of_int \<lfloor>q\<rfloor> < q" by linarith
    with q have "real_of_int \<lfloor>q\<rfloor> < real_of_int b" by linarith
    then have "\<lfloor>q\<rfloor> < b" by (simp only: of_int_less_iff)
    then have "\<lfloor>q\<rfloor> + 1 \<le> b" by linarith
    with f show ?thesis by (simp add: round_even_def Let_def)
  qed
qed

text \<open>
  A number with a significand of at most 53 bits and an exponent in the range of the
  type is a double: rounding leaves it as it is.
\<close>

lemma fl_exact_gen:
  fixes m k :: int
  assumes "\<bar>m\<bar> < 2 ^ 53" "- 1074 \<le> k" "\<bar>real_of_int m * 2 powi k\<bar> \<le> DBL_MAX"
  shows "fl (of_int m * 2 powi k) = Fin (of_int m * 2 powi k)"
proof (cases "m = 0")
  case True
  then show ?thesis by (simp add: fl_def)
next
  case False
  define x where "x = real_of_int m * 2 powi k"
  have x0: "x \<noteq> 0" using False by (simp add: x_def)
  have ax: "\<bar>x\<bar> = real_of_int \<bar>m\<bar> * 2 powi k"
    by (simp add: x_def abs_mult)
  define e where "e = max \<lfloor>log 2 \<bar>x\<bar>\<rfloor> (- 1022)"
  have m1: "real_of_int \<bar>m\<bar> \<le> 2 ^ 53 - 1"
  proof -
    have "\<bar>m\<bar> \<le> 2 ^ 53 - 1" using assms(1) by simp
    then have "real_of_int \<bar>m\<bar> \<le> real_of_int (2 ^ 53 - 1)" by (simp only: of_int_le_iff)
    then show ?thesis by simp
  qed
  have "\<bar>x\<bar> < 2 ^ 53 * 2 powi k"
    unfolding ax using m1 by (intro mult_strict_right_mono) simp_all
  also have "\<dots> = 2 powi (k + 53)"
    by (simp add: power_int_add)
  also have "\<dots> = 2 powr real_of_int (k + 53)"
    by (rule powr_real_of_int' [symmetric]) simp_all
  finally have "log 2 \<bar>x\<bar> < real_of_int (k + 53)"
    using x0 by (simp add: log_less_iff)
  then have "\<lfloor>log 2 \<bar>x\<bar>\<rfloor> < k + 53" by linarith
  then have ek: "e - 52 \<le> k" using assms(2) by (simp add: e_def)
  define j where "j = nat (k - (e - 52))"
  have "x / 2 powi (e - 52) = real_of_int m * 2 powi (k - (e - 52))"
    by (simp add: x_def power_int_diff)
  also have "2 powi (k - (e - 52)) = (2::real) ^ j"
    using ek by (simp add: j_def power_int_def)
  finally have q: "x / 2 powi (e - 52) = real_of_int (m * 2 ^ j)" by simp
  have "real_of_int (round_even (x / 2 powi (e - 52))) = x / 2 powi (e - 52)"
    by (simp only: q round_even_of_int)
  then have y: "real_of_int (round_even (x / 2 powi (e - 52))) * 2 powi (e - 52) = x"
    by simp
  have "\<not> DBL_MAX < \<bar>x\<bar>" using assms(3) by (simp add: x_def)
  then show ?thesis
    using x0 unfolding fl_def Let_def e_def [symmetric] x_def [symmetric] y by simp
qed

lemma fl_exact:
  fixes m k :: int
  assumes "\<bar>m\<bar> < 2 ^ 53" "- 1074 \<le> k" "k \<le> 971"
  shows "fl (of_int m * 2 powi k) = Fin (of_int m * 2 powi k)"
proof -
  have "\<bar>m\<bar> \<le> 2 ^ 53 - 1" using assms(1) by simp
  then have "real_of_int \<bar>m\<bar> \<le> real_of_int (2 ^ 53 - 1)" by (simp only: of_int_le_iff)
  then have m1: "real_of_int \<bar>m\<bar> \<le> 2 ^ 53 - 1" by simp
  have "2 powi k \<le> (2::real) powi 971"
    using assms(3) by (intro power_int_increasing) simp_all
  then have "real_of_int \<bar>m\<bar> * 2 powi k \<le> (2 ^ 53 - 1) * 2 powi 971"
    using m1 by (intro mult_mono) simp_all
  then have "\<bar>real_of_int m * 2 powi k\<bar> \<le> DBL_MAX"
    by (simp add: DBL_MAX_def abs_mult)
  with assms(1,2) show ?thesis by (rule fl_exact_gen)
qed

text \<open>The rounding of a number whose binade is known.\<close>

lemma fl_at:
  fixes e :: int
  assumes "2 powi e \<le> \<bar>x\<bar>" "\<bar>x\<bar> < 2 powi (e + 1)" "- 1022 \<le> e"
  shows "fl x = (let y = of_int (round_even (x / 2 powi (e - 52))) * 2 powi (e - 52)
                 in if DBL_MAX < \<bar>y\<bar> then inf_of x else Fin y)"
proof -
  have "(0::real) < 2 powi e" by simp
  with assms(1) have "0 < \<bar>x\<bar>" by linarith
  then have x0: "x \<noteq> 0" by simp
  have "2 powr real_of_int e = (2::real) powi e" "2 powr real_of_int (e + 1) = (2::real) powi (e + 1)"
    by (rule powr_real_of_int'; simp)+
  then have "2 powr real_of_int e \<le> \<bar>x\<bar> \<and> \<bar>x\<bar> < 2 powr (real_of_int e + 1)"
    using assms by simp
  then have "\<lfloor>log 2 \<bar>x\<bar>\<rfloor> = e"
    using x0 by (simp add: floor_log_eq_powr_iff)
  then show ?thesis
    using x0 assms(3) by (simp add: fl_def Let_def)
qed


text \<open>
  Rounding does not cross a power of two: a number of magnitude at most \<^verbatim>\<open>2^k\<close> rounds to
  a finite double of magnitude at most \<^verbatim>\<open>2^k\<close>, and a number of at least \<^verbatim>\<open>2^a\<close> in the normal
  range to one of at least \<^verbatim>\<open>2^a\<close>.
\<close>

lemma fl_abs_le:
  fixes k :: int
  assumes "\<bar>x\<bar> \<le> 2 powi k" "- 1074 \<le> k" "k \<le> 1023"
  shows "\<exists>y. fl x = Fin y \<and> \<bar>y\<bar> \<le> 2 powi k"
proof (cases "x = 0")
  case True
  then show ?thesis by (simp add: fl_def)
next
  case False
  define e where "e = max \<lfloor>log 2 \<bar>x\<bar>\<rfloor> (- 1022)"
  have "2 powr real_of_int k = (2::real) powi k"
    by (rule powr_real_of_int') simp_all
  then have "\<bar>x\<bar> \<le> 2 powr real_of_int k" using assms(1) by simp
  then have "log 2 \<bar>x\<bar> \<le> real_of_int k"
    using False by (simp add: log_le_iff)
  then have "\<lfloor>log 2 \<bar>x\<bar>\<rfloor> \<le> k" by (simp add: floor_le_iff)
  then have ek: "e - 52 \<le> k" using assms(2) by (simp add: e_def)
  define u :: real where "u = 2 powi (e - 52)"
  have up: "0 < u" by (simp add: u_def)
  define N :: int where "N = 2 ^ nat (k - (e - 52))"
  have "(2::real) powi k = 2 powi (k - (e - 52)) * u"
    by (simp add: u_def flip: power_int_add)
  also have "(2::real) powi (k - (e - 52)) = real_of_int N"
    using ek by (simp add: N_def power_int_def)
  finally have Nu: "2 powi k = real_of_int N * u" .
  have A: "\<bar>x / u\<bar> \<le> real_of_int N"
    using assms(1) up unfolding Nu by (simp add: abs_divide pos_divide_le_eq abs_of_pos)
  have "x / u \<le> real_of_int N"
    using A by (rule abs_le_D1)
  moreover have "real_of_int (- N) \<le> x / u"
    using abs_le_D2 [OF A] by simp
  ultimately have "round_even (x / u) \<le> N" "- N \<le> round_even (x / u)"
    by (simp_all only: round_even_le round_even_ge)
  then have "\<bar>round_even (x / u)\<bar> \<le> N" by simp
  then have "real_of_int \<bar>round_even (x / u)\<bar> \<le> real_of_int N" by (simp only: of_int_le_iff)
  then have "real_of_int \<bar>round_even (x / u)\<bar> * u \<le> real_of_int N * u"
    using up by (intro mult_right_mono) simp_all
  then have b: "\<bar>real_of_int (round_even (x / u)) * u\<bar> \<le> 2 powi k"
    using up by (simp add: Nu abs_mult abs_of_pos)
  have "(2::real) powi k \<le> 2 powi 1023"
    using assms(3) by (intro power_int_increasing) simp_all
  also have "\<dots> \<le> DBL_MAX" by (simp add: DBL_MAX_def)
  finally have "\<not> DBL_MAX < \<bar>real_of_int (round_even (x / u)) * u\<bar>" using b by linarith
  then have "fl x = Fin (real_of_int (round_even (x / u)) * u)"
    using False unfolding fl_def Let_def e_def [symmetric] u_def [symmetric] by simp
  with b show ?thesis by blast
qed

lemma fl_bounds:
  fixes a b :: int
  assumes "2 powi a \<le> x" "x \<le> 2 powi b" "- 1022 \<le> a" "b \<le> 1023"
  shows "\<exists>y. fl x = Fin y \<and> 2 powi a \<le> y \<and> y \<le> 2 powi b"
proof -
  have xp: "0 < x" using assms(1) by (rule less_le_trans [rotated]) simp
  have "2 powi a \<le> (2::real) powi b" using assms(1,2) by (rule order_trans)
  then have ab: "a \<le> b"
    using power_int_strict_increasing [of b a "2::real"] by (cases "a \<le> b") simp_all
  have "\<bar>x\<bar> \<le> 2 powi b" using xp assms(2) by simp
  from fl_abs_le [OF this] ab assms(3,4)
  obtain y where y: "fl x = Fin y" and yb: "\<bar>y\<bar> \<le> 2 powi b" by auto
  define e where "e = \<lfloor>log 2 \<bar>x\<bar>\<rfloor>"
  have "2 powr real_of_int a = (2::real) powi a"
    by (rule powr_real_of_int') simp_all
  then have "2 powr real_of_int a \<le> x" using assms(1) by simp
  then have "real_of_int a \<le> log 2 x" using xp by (simp only: le_log_iff)
  then have e1: "a \<le> e" using xp by (simp add: e_def le_floor_iff)
  then have em: "max e (- 1022) = e" using assms(3) by simp
  have "2 powr real_of_int e \<le> x"
    using xp floor_log_eq_powr_iff [of x 2 e] by (simp add: e_def)
  moreover have "2 powr real_of_int e = (2::real) powi e"
    by (rule powr_real_of_int') simp_all
  ultimately have lo: "2 powi e \<le> x" by simp
  define q where "q = x / 2 powi (e - 52)"
  have "2 powi e / 2 powi (e - 52) \<le> q"
    unfolding q_def using lo by (intro divide_right_mono) simp_all
  then have "real_of_int (2 ^ 52) \<le> q" by (simp add: power_int_diff)
  then have "2 ^ 52 \<le> round_even q" by (rule round_even_ge)
  then have "real_of_int (2 ^ 52) \<le> real_of_int (round_even q)" by (simp only: of_int_le_iff)
  then have r: "real_of_int (2 ^ 52) * 2 powi (e - 52) \<le> real_of_int (round_even q) * 2 powi (e - 52)"
    by (intro mult_right_mono) simp_all
  have "(2::real) powi a \<le> 2 powi e"
    using e1 by (intro power_int_increasing) simp_all
  also have "(2::real) powi e = real_of_int (2 ^ 52) * 2 powi (e - 52)"
    by (simp add: power_int_diff)
  also note r
  finally have lb: "2 powi a \<le> real_of_int (round_even q) * 2 powi (e - 52)" .
  have "fl x = (if DBL_MAX < \<bar>real_of_int (round_even q) * 2 powi (e - 52)\<bar> then inf_of x
                else Fin (real_of_int (round_even q) * 2 powi (e - 52)))"
    using xp unfolding fl_def Let_def e_def [symmetric] em q_def by simp
  with y have "y = real_of_int (round_even q) * 2 powi (e - 52)"
    using xp by (simp add: inf_of_def split: if_splits)
  with lb yb y show ?thesis by auto
qed

text \<open>Every finite value that the rounding returns is a double.\<close>

lemma fl_is_double:
  assumes "fl x = Fin y"
  shows "is_double y"
proof (cases "x = 0")
  case True
  with assms show ?thesis by (simp add: fl_def is_double_def)
next
  case False
  define e0 where "e0 = \<lfloor>log 2 \<bar>x\<bar>\<rfloor>"
  define e where "e = max e0 (- 1022)"
  define u :: real where "u = 2 powi (e - 52)"
  define n where "n = round_even (x / u)"
  have up: "0 < u" by (simp add: u_def)
  have fx: "fl x = (if DBL_MAX < \<bar>real_of_int n * u\<bar> then inf_of x else Fin (real_of_int n * u))"
    using False by (simp add: fl_def Let_def e0_def e_def u_def n_def)
  with assms False have y: "y = real_of_int n * u" and fin: "\<bar>real_of_int n * u\<bar> \<le> DBL_MAX"
    by (auto simp add: inf_of_def split: if_splits)
  have "\<bar>x\<bar> < 2 powr (real_of_int e0 + 1)"
    using False floor_log_eq_powr_iff [of "\<bar>x\<bar>" 2 e0] by (simp add: e0_def)
  also have "2 powr (real_of_int e0 + 1) = 2 powr real_of_int (e0 + 1)" by simp
  also have "\<dots> = (2::real) powi (e0 + 1)"
    by (rule powr_real_of_int') simp_all
  also have "\<dots> \<le> 2 powi (e + 1)"
    by (intro power_int_increasing) (simp_all add: e_def)
  also have "(2::real) powi (e + 1) = real_of_int (2 ^ 53) * u"
    by (simp add: u_def power_int_diff power_int_add)
  finally have "\<bar>x\<bar> / u < real_of_int (2 ^ 53)"
    using up by (simp add: pos_divide_less_eq)
  then have A: "\<bar>x / u\<bar> \<le> real_of_int (2 ^ 53)"
    using up by (simp add: abs_divide abs_of_pos)
  have "x / u \<le> real_of_int (2 ^ 53)"
    using A by (rule abs_le_D1)
  moreover have "real_of_int (- (2 ^ 53)) \<le> x / u"
    using abs_le_D2 [OF A] by simp
  ultimately have nb: "n \<le> 2 ^ 53" "- (2 ^ 53) \<le> n"
    unfolding n_def by (simp_all only: round_even_le round_even_ge)
  have k: "- 1074 \<le> e - 52" by (simp add: e_def)
  show ?thesis
  proof (cases "\<bar>n\<bar> < 2 ^ 53")
    case True
    from fl_exact_gen [OF True k] fin show ?thesis
      by (simp add: is_double_def y u_def)
  next
    case False
    with nb have "n = 2 ^ 53 \<or> n = - (2 ^ 53)" by linarith
    then have "y = real_of_int 1 * 2 powi (e + 1) \<or> y = real_of_int (- 1) * 2 powi (e + 1)"
      by (auto simp add: y u_def power_int_diff power_int_add)
    moreover have "\<bar>real_of_int 1 * 2 powi (e + 1)\<bar> \<le> DBL_MAX"
      "\<bar>real_of_int (- 1) * 2 powi (e + 1)\<bar> \<le> DBL_MAX"
      using fin \<open>n = 2 ^ 53 \<or> n = - (2 ^ 53)\<close>
      by (auto simp add: u_def power_int_diff power_int_add)
    moreover have "- 1074 \<le> e + 1" by (simp add: e_def)
    ultimately show ?thesis
      using fl_exact_gen [of 1 "e + 1"] fl_exact_gen [of "- 1" "e + 1"]
      by (auto simp add: is_double_def)
  qed
qed





text \<open>The small integers and their halves are doubles.\<close>

lemma fl_numeral: "numeral n < (2::real) ^ 53 \<Longrightarrow> fl (numeral n) = Fin (numeral n)"
proof -
  assume "numeral n < (2::real) ^ 53"
  then have "real_of_int (numeral n) < real_of_int (2 ^ 53)" by simp
  then have "(numeral n :: int) < 2 ^ 53" by (simp only: of_int_less_iff)
  then have "\<bar>numeral n :: int\<bar> < 2 ^ 53" by simp
  from fl_exact [OF this, of 0] show ?thesis by simp
qed

lemma fl_neg_numeral: "numeral n < (2::real) ^ 53 \<Longrightarrow> fl (- numeral n) = Fin (- numeral n)"
proof -
  assume "numeral n < (2::real) ^ 53"
  then have "real_of_int (numeral n) < real_of_int (2 ^ 53)" by simp
  then have "(numeral n :: int) < 2 ^ 53" by (simp only: of_int_less_iff)
  then have "\<bar>- numeral n :: int\<bar> < 2 ^ 53" by simp
  from fl_exact [OF this, of 0] show ?thesis by simp
qed

lemma fl_half_numeral: "numeral n < (2::real) ^ 53 \<Longrightarrow> fl (numeral n / 2) = Fin (numeral n / 2)"
proof -
  assume "numeral n < (2::real) ^ 53"
  then have "real_of_int (numeral n) < real_of_int (2 ^ 53)" by simp
  then have "(numeral n :: int) < 2 ^ 53" by (simp only: of_int_less_iff)
  then have "\<bar>numeral n :: int\<bar> < 2 ^ 53" by simp
  from fl_exact [OF this, of "- 1"] show ?thesis by simp
qed

lemma fl_neg_half_numeral:
  "numeral n < (2::real) ^ 53 \<Longrightarrow> fl (- (numeral n / 2)) = Fin (- (numeral n / 2))"
proof -
  assume "numeral n < (2::real) ^ 53"
  then have "real_of_int (numeral n) < real_of_int (2 ^ 53)" by simp
  then have "(numeral n :: int) < 2 ^ 53" by (simp only: of_int_less_iff)
  then have "\<bar>- numeral n :: int\<bar> < 2 ^ 53" by simp
  from fl_exact [OF this, of "- 1"] show ?thesis by simp
qed

lemma fl_zero: "fl 0 = Fin 0"
  by (simp add: fl_def)

lemma fl_one: "fl 1 = Fin 1"
  using fl_exact [of 1 0] by simp

lemma fl_neg_one: "fl (- 1) = Fin (- 1)"
  using fl_exact [of "- 1" 0] by simp

lemma fl_half: "fl (1 / 2) = Fin (1 / 2)"
  using fl_exact [of 1 "- 1"] by simp

lemma fl_neg_half: "fl (- (1 / 2)) = Fin (- (1 / 2))"
  using fl_exact [of "- 1" "- 1"] by simp

lemmas fl_simps = fl_zero fl_one fl_neg_one fl_half fl_neg_half fl_numeral fl_neg_numeral
  fl_half_numeral fl_neg_half_numeral

text \<open>
  One sixth is no double: it rounds to \<^verbatim>\<open>6004799503160661 / 2^55\<close>. Twice that is a
  double, and 1 more rounds to \<^verbatim>\<open>6004799503160661 / 2^52\<close>, the double next to 4/3.
\<close>

lemma fl_sixth: "fl (1 / 6) = Fin (6004799503160661 / 36028797018963968)"
proof -
  have "fl (1 / 6) = (let y = of_int (round_even ((1 / 6) / 2 powi (- 3 - 52))) * 2 powi (- 3 - 52)
                 in if DBL_MAX < \<bar>y\<bar> then inf_of (1 / 6) else Fin y)"
    by (rule fl_at) simp_all
  then show ?thesis
    by (simp add: Let_def round_even_def DBL_MAX_def)
qed

lemma fl_two_sixths:
  "fl (6004799503160661 / 18014398509481984) = Fin (6004799503160661 / 18014398509481984)"
  using fl_exact [of 6004799503160661 "- 54"] by simp

lemma fl_four_thirds:
  "fl (24019198012642645 / 18014398509481984) = Fin (6004799503160661 / 4503599627370496)"
proof -
  have "fl (24019198012642645 / 18014398509481984) =
      (let y = of_int (round_even ((24019198012642645 / 18014398509481984) / 2 powi (0 - 52)))
               * 2 powi (0 - 52)
       in if DBL_MAX < \<bar>y\<bar> then inf_of (24019198012642645 / 18014398509481984) else Fin y)"
    by (rule fl_at) simp_all
  then show ?thesis
    by (simp add: Let_def round_even_def DBL_MAX_def)
qed

text \<open>
  The sum of doubles is rounded: the doubles next to 0.1 and 0.2 add to
  \<^verbatim>\<open>5404319552844596 / 2^54\<close>, which is \<^verbatim>\<open>0.30000000000000004\<close> (the exact sum lies half way
  between two doubles and goes to the even one).
\<close>

lemma plus_double_rounds:
  "Fin (3602879701896397 / 36028797018963968) + Fin (3602879701896397 / 18014398509481984)
     = Fin (5404319552844596 / 18014398509481984)"
proof -
  have "fl (10808639105689191 / 36028797018963968) =
      (let y = of_int (round_even ((10808639105689191 / 36028797018963968) / 2 powi (- 2 - 52)))
               * 2 powi (- 2 - 52)
       in if DBL_MAX < \<bar>y\<bar> then inf_of (10808639105689191 / 36028797018963968) else Fin y)"
    by (rule fl_at) simp_all
  then have "fl (10808639105689191 / 36028797018963968) = Fin (5404319552844596 / 18014398509481984)"
    by (simp add: Let_def round_even_def DBL_MAX_def)
  then show ?thesis by simp
qed

subsection \<open>Powers, roots and timesteps\<close>






subsection \<open>Special values\<close>






section \<open>Facts about the maps\<close>

lemma map_of_assign_m: "map_of (assign_m k x m) = (map_of m)(k \<mapsto> x)"
  by (induction m) (auto simp add: fun_eq_iff)

lemma keys_assign_m: "fst ` set (assign_m k x m) = insert k (fst ` set m)"
  by (simp add: dom_map_of_conv_image_fst [symmetric] map_of_assign_m)

lemma map_of_fold_assign:
  "map_of (fold (\<lambda>(i, _) acc. assign_m i (f i) acc) xs acc) k =
     (if k \<in> fst ` set xs then Some (f k) else map_of acc k)"
  by (induction xs arbitrary: acc) (auto simp add: map_of_assign_m)

lemma map_of_insert_m:
  "map_of (insert_m k x m) = (case map_of m k of None \<Rightarrow> (map_of m)(k \<mapsto> x) | Some _ \<Rightarrow> map_of m)"
  by (simp add: insert_m_def count_m_def map_of_assign_m split: option.splits)

lemma map_of_fold_insert:
  "map_of (fold (\<lambda>(i, g) acc. insert_m i (f i g) acc) xs acc) k =
     (case map_of acc k of Some y \<Rightarrow> Some y | None \<Rightarrow> map_option (f k) (map_of xs k))"
proof (induction xs arbitrary: acc)
  case Nil
  then show ?case by (simp split: option.splits)
next
  case (Cons e xs)
  obtain i g where e: "e = (i, g)" by (cases e)
  show ?case
    unfolding e by (simp add: Cons.IH map_of_insert_m split: option.splits)
qed

lemma map_of_None_iff: "map_of m k = None \<longleftrightarrow> k \<notin> fst ` set m"
  by (simp add: map_of_eq_None_iff)

lemma at_m_absent: "k \<notin> fst ` set m \<Longrightarrow> at_m m k = 0"
  by (simp add: at_m_def zero_double_def map_of_None_iff [symmetric])

lemma count_m_zero_iff: "count_m m k = 0 \<longleftrightarrow> k \<notin> fst ` set m"
  by (cases "map_of m k") (simp_all add: count_m_def map_of_None_iff [symmetric])

lemma map_of_fold_assign_if:
  "map_of (fold (\<lambda>(i, _) acc. if P i then assign_m i (f i) acc else acc) xs acc) k =
     (if k \<in> fst ` set xs \<and> P k then Some (f k) else map_of acc k)"
  by (induction xs arbitrary: acc) (auto simp add: map_of_assign_m)

section \<open>The solver's formula\<close>

lemma calculate_conc_terms:
  "calculate_conc this C_0 C_i r tope t0 t =
     at_m C_0 tope * (solver_At this r tope t - solver_Att0 this r tope t0 t)
     + at_m C_i tope * (solver_B1 this r tope t + solver_B2 this r tope t + solver_B3 this r tope t)"
  by (simp only: calculate_conc_def Let_def solver_At_def solver_Att0_def solver_Att0_frac_def
      solver_B1_def solver_B2_def solver_B3_def solver_B3_exp_def solver_B3_frac_def
      solver_B3_factor_def)







section \<open>The solver at equal times\<close>

text \<open>
  Claim C3, as the spec states it: at \<open>t = t0\<close> the \<open>Att0\<close> term is guarded, it counts as
  zero and nothing is divided by zero. The solver has no such guard. At the cell with
  \<open>v = 56\<close> and \<open>D = 1\<close>, for \<open>C0 = 1\<close>, \<open>Ci = 0\<close>, \<open>r = 0\<close> and \<open>t0 = t = 1\<close>, the quotient
  \<open>(R r - v t) / (2 pow(D R (t - t0), 0.5))\<close> is evaluated: it is \<open>-56 / 0\<close>, minus infinity.
  \<^verbatim>\<open>erfc\<close> of it is 2, so \<open>Att0 = 1\<close>; \<open>At\<close> is \<open>erfc(-28) / 2 = 1\<close> as well, and the solver
  returns \<open>C0 (At - Att0) + B = 0\<close>. With a zero \<open>Att0\<close> the value is 1.
\<close>

theorem calculate_conc_guard_counterexample:
  "solver_Att0_frac cell4 (Fin 0) 92235 1 1 = NInf
   \<and> solver_Att0 cell4 (Fin 0) 92235 1 1 = Fin 1
   \<and> calculate_conc cell4 [(92235, Fin 1)] [(92235, Fin 0)] (Fin 0) 92235 1 1 = Fin 0
   \<and> at_m [(92235, Fin 1)] (92235::int) * (solver_At cell4 (Fin 0) 92235 1 - Fin 0)
       + at_m [(92235, Fin 0)] (92235::int)
         * (solver_B1 cell4 (Fin 0) 92235 1 + solver_B2 cell4 (Fin 0) 92235 1
            + solver_B3 cell4 (Fin 0) 92235 1)
     = Fin 1"
proof -
  have at: "solver_At cell4 (Fin 0) 92235 1 = Fin 1"
    by (simp add: solver_At_def cell4_def cell0_def of_cint_def minus_double_def fl_simps)
  have b1: "solver_B1 cell4 (Fin 0) 92235 1 = Fin 1"
    by (simp add: solver_B1_def cell4_def cell0_def of_cint_def minus_double_def fl_simps)
  have fr: "solver_Att0_frac cell4 (Fin 0) 92235 1 1 = NInf"
    by (simp add: solver_Att0_frac_def cell4_def cell0_def of_cint_def minus_double_def fl_simps
        inf_of_def)
  have att0: "solver_Att0 cell4 (Fin 0) 92235 1 1 = Fin 1"
    by (simp add: solver_Att0_def fr fl_simps)
  have b3: "solver_B3 cell4 (Fin 0) 92235 1 = Fin 0"
    by (simp add: solver_B3_def solver_B3_factor_def solver_B3_exp_def solver_B3_frac_def
        cell4_def cell0_def of_cint_def fl_simps)
  obtain c where b2: "solver_B2 cell4 (Fin 0) 92235 1 = Fin c" and c: "\<bar>c\<bar> \<le> 64"
  proof -
    from fl_bounds [of 1 pi 2] pi_ge_two pi_less_4
    obtain p where p: "fl pi = Fin p" "2 \<le> p" "p \<le> 4" by auto
    from fl_bounds [of 1 p 2] p
    obtain p1 where p1: "fl p = Fin p1" "2 \<le> p1" "p1 \<le> 4" by auto
    from fl_bounds [of 1 p1 2] p1
    obtain p2 where p2: "fl p1 = Fin p2" "2 \<le> p2" "p2 \<le> 4" by auto
    have "512 \<le> 3136 / p2" "3136 / p2 \<le> 2048"
      using p2 by (simp_all add: field_simps)
    with fl_bounds [of 9 "3136 / p2" 11]
    obtain q where q: "fl (3136 / p2) = Fin q" "512 \<le> q" "q \<le> 2048" by auto
    have "sqrt 256 \<le> sqrt q" "sqrt q \<le> sqrt 4096"
      using q by (simp_all only: real_sqrt_le_iff)
    then have "16 \<le> sqrt q" "sqrt q \<le> 64" by simp_all
    with fl_bounds [of 4 "sqrt q" 6]
    obtain a where a: "fl (sqrt q) = Fin a" "16 \<le> a" "a \<le> 64" by auto
    have "\<bar>exp (- 784 :: real)\<bar> \<le> 2 powi 0" by simp
    from fl_abs_le [OF this]
    obtain b where b: "fl (exp (- 784)) = Fin b" "\<bar>b\<bar> \<le> 1" by auto
    have "\<bar>a * b\<bar> \<le> 64 * 1"
      unfolding abs_mult using a b by (intro mult_mono) simp_all
    then have "\<bar>a * b\<bar> \<le> 2 powi 6" by simp
    from fl_abs_le [OF this]
    obtain c where c: "fl (a * b) = Fin c" "\<bar>c\<bar> \<le> 64" by auto
    have nz: "p2 \<noteq> 0" "0 < q"
      using p2(2) q(2) by simp_all
    have sq: "q powr (1 / 2) = sqrt q"
      using nz(2) by (simp add: powr_half_sqrt)
    have "solver_B2 cell4 (Fin 0) 92235 1 = Fin c"
      by (simp add: solver_B2_def cell4_def cell0_def of_cint_def minus_double_def fl_simps
          is_integer_def p p1 p2 q nz sq a b c)
    then show ?thesis using c(2) by (rule that)
  qed
  obtain s where s: "solver_B1 cell4 (Fin 0) 92235 1 + solver_B2 cell4 (Fin 0) 92235 1
      + solver_B3 cell4 (Fin 0) 92235 1 = Fin s"
  proof -
    have "\<bar>1 + c\<bar> \<le> 2 powi 7" using c by simp
    from fl_abs_le [OF this]
    obtain s1 where s1: "fl (1 + c) = Fin s1" "\<bar>s1\<bar> \<le> 2 powi 7" by auto
    from fl_abs_le [OF s1(2)]
    obtain s2 where s2: "fl s1 = Fin s2" by auto
    have "solver_B1 cell4 (Fin 0) 92235 1 + solver_B2 cell4 (Fin 0) 92235 1
      + solver_B3 cell4 (Fin 0) 92235 1 = Fin s2"
      by (simp add: b1 b2 b3 s1 s2)
    then show ?thesis by (rule that)
  qed
  have "calculate_conc cell4 [(92235, Fin 1)] [(92235, Fin 0)] (Fin 0) 92235 1 1 = Fin 0"
    unfolding calculate_conc_terms s at att0
    by (simp add: at_m_def minus_double_def fl_simps)
  moreover have "at_m [(92235, Fin 1)] (92235::int) * (solver_At cell4 (Fin 0) 92235 1 - Fin 0)
       + at_m [(92235, Fin 0)] (92235::int)
         * (solver_B1 cell4 (Fin 0) 92235 1 + solver_B2 cell4 (Fin 0) 92235 1
            + solver_B3 cell4 (Fin 0) 92235 1)
     = Fin 1"
    unfolding s at
    by (simp add: at_m_def minus_double_def fl_simps)
  ultimately show ?thesis using fr att0 by simp
qed

text \<open>
  Claim C3, amended. At \<open>t = t0\<close>, for a dispersion coefficient that is a finite double
  and a numerator \<open>R r - v t\<close> that is finite and not zero, the solver evaluates the \<open>Att0\<close>
  quotient with the divisor 0, unguarded: the divisor \<open>2 pow(D R (t - t0), 0.5)\<close> is 0 and
  the quotient is the infinity with the sign of the numerator, so \<open>Att0\<close> is 0 when the
  numerator is positive and 1 when it is negative, and the solver returns
  \<open>C0 (At - Att0) + B\<close> with that \<open>Att0\<close>. This holds at \<open>t = t0 = 0\<close> too. (When the
  numerator is 0 the quotient is \<open>0 / 0\<close>, which is NaN; what comes of it is the library's
  \<^verbatim>\<open>erfc\<close> at NaN.)
\<close>

theorem calculate_conc_unguarded:
  assumes "D (mat_table this) (tope sdiv 1000) = Fin d" and "is_double d"
    and "Fin 1 * r - v this * of_cint t = Fin n" and "n \<noteq> 0"
  shows "solver_Att0_frac this r tope t t = inf_of n
    \<and> solver_Att0 this r tope t t = Fin (if n < 0 then 1 else 0)
    \<and> calculate_conc this C_0 C_i r tope t t =
        at_m C_0 tope * (solver_At this r tope t - Fin (if n < 0 then 1 else 0))
        + at_m C_i tope * (solver_B1 this r tope t + solver_B2 this r tope t + solver_B3 this r tope t)"
proof -
  have z: "of_cint (t - t) = Fin 0"
    by (simp add: of_cint_def)
  have d: "fl d = Fin d"
    using assms(2) by (simp only: is_double_def)
  have "Fin 2 * pow (D (mat_table this) (tope sdiv 1000) * Fin 1 * of_cint (t - t)) 0.5 = Fin 0"
    unfolding assms(1) z by (simp add: d fl_zero)
  then have fr: "solver_Att0_frac this r tope t t = inf_of n"
    unfolding solver_Att0_frac_def assms(3) by simp
  have att0: "solver_Att0 this r tope t t = Fin (if n < 0 then 1 else 0)"
    unfolding solver_Att0_def fr using assms(4) by (simp add: inf_of_def fl_simps)
  show ?thesis
    by (simp only: fr att0 calculate_conc_terms simp_thms)
qed

text \<open>
  The instances at the cell with \<open>v = 1\<close> and \<open>D = 1\<close>: at \<open>r = 2\<close> and \<open>t0 = t = 0\<close> the
  numerator is 2 and \<open>Att0\<close> is 0; at \<open>r = 0\<close> and \<open>t0 = t = 1\<close> the numerator is \<open>-1\<close> and
  \<open>Att0\<close> is 1.
\<close>

theorem calculate_conc_unguarded_witness:
  "D (mat_table cell1) (92235 sdiv 1000) = Fin 1 \<and> is_double 1
   \<and> Fin 1 * Fin 2 - v cell1 * of_cint 0 = Fin 2
   \<and> Fin 1 * Fin 0 - v cell1 * of_cint 1 = Fin (- 1)
   \<and> solver_Att0_frac cell1 (Fin 2) 92235 0 0 = PInf
   \<and> solver_Att0 cell1 (Fin 2) 92235 0 0 = Fin 0
   \<and> solver_Att0_frac cell1 (Fin 0) 92235 1 1 = NInf
   \<and> solver_Att0 cell1 (Fin 0) 92235 1 1 = Fin 1"
proof -
  have h1: "D (mat_table cell1) (92235 sdiv 1000) = Fin 1" by (simp add: cell1_def cell0_def)
  have h2: "is_double 1" by (simp add: is_double_def fl_one)
  have h3: "Fin 1 * Fin 2 - v cell1 * of_cint 0 = Fin 2"
    by (simp add: cell1_def of_cint_def minus_double_def fl_simps)
  have h4: "Fin 1 * Fin 0 - v cell1 * of_cint 1 = Fin (- 1)"
    by (simp add: cell1_def of_cint_def minus_double_def fl_simps)
  have n: "(2::real) \<noteq> 0" "(- 1::real) \<noteq> 0" by simp_all
  from calculate_conc_unguarded [OF h1 h2 h3 n(1), of "[]" "[]"]
    calculate_conc_unguarded [OF h1 h2 h4 n(2), of "[]" "[]"] h1 h2 h3 h4
  show ?thesis by (simp add: inf_of_def)
qed

section \<open>The transport step\<close>

lemma not_sle_iff: "(\<not> (a::cint) \<le>s b) = (b <s a)"
  by (auto simp add: word_sle_eq word_sless_alt)

lemma update_succeeds:
  assumes "last_updated this \<le>s the_time"
  shows "update this the_time =
    Inr (this\<lparr>vec_hist := (vec_hist this)(the_time := sum_mats (wastes this)),
             last_updated := the_time,
             conc_hist := (conc_hist this)(the_time :=
               conc_profile (update_vec_hist this the_time)
                 (comp_to_conc_map (comp (fst (sum_mats (wastes this)))) (snd (sum_mats (wastes this)))
                    (V_f this))
                 (radial_midpoint (geom this)) the_time)\<rparr>)"
  using assms
  by (simp add: update_def update_conc_hist_def update_vec_hist_def set_last_updated_def Let_def
      V_f_def V_T_def)

lemma update_fails:
  assumes "the_time <s last_updated this"
  shows "update this the_time = Inl AssertionFailed"
  using assms
  by (simp add: update_def update_conc_hist_def update_vec_hist_def Let_def not_sle_iff)

text \<open>
  Claim C4. A transport step at a time before the cell's last update fails the
  assertion \<^verbatim>\<open>last_updated() <= the_time\<close> of \<^verbatim>\<open>update_conc_hist\<close>: the contract error of
  the spec, with no state returned and no clamping. A step at a time from the last
  update on returns a cell whose last update is that time.
\<close>

theorem transport_step_precondition:
  "(the_time <s last_updated this \<longrightarrow> transportNuclides this the_time = Inl AssertionFailed)
   \<and> (last_updated this \<le>s the_time \<longrightarrow>
        (\<exists>this'. transportNuclides this the_time = Inr this' \<and> last_updated this' = the_time))"
  by (simp add: transportNuclides_def update_fails update_succeeds)

text \<open>
  The instances: a cell last updated at 5 stepped at 3, and the example cell (last
  updated at 0) stepped at 7.
\<close>

theorem transport_step_precondition_witness:
  "(3::cint) <s last_updated (cell0\<lparr>last_updated := 5\<rparr>)
   \<and> transportNuclides (cell0\<lparr>last_updated := 5\<rparr>) 3 = Inl AssertionFailed
   \<and> last_updated cell0 \<le>s 7
   \<and> (\<exists>this'. transportNuclides cell0 7 = Inr this' \<and> last_updated this' = 7)"
proof -
  have a: "(3::cint) <s last_updated (cell0\<lparr>last_updated := 5\<rparr>)"
    by (simp add: word_sless_alt)
  have b: "last_updated cell0 \<le>s 7"
    by (simp add: cell0_def word_sle_eq)
  from a b transport_step_precondition [of 3 "cell0\<lparr>last_updated := 5\<rparr>"]
    transport_step_precondition [of 7 cell0]
  show ?thesis by blast
qed

section \<open>The arguments of the solver on the update path\<close>

lemma map_of_conc_profile:
  "map_of (conc_profile this C_0 r dt) tope =
     (if tope \<in> fst ` set C_0 then Some (calculate_conc this C_0 C_0 r tope dt (dt + dt)) else None)"
  unfolding conc_profile_def by (simp add: map_of_fold_assign)

lemma calculate_conc_update_vec_hist:
  "calculate_conc (update_vec_hist this t1) = calculate_conc this"
  by (simp add: fun_eq_iff calculate_conc_def update_vec_hist_def)

text \<open>
  Claim C10. A transport step at a time \<open>t\<close> from the last update on stores at \<open>t\<close> the
  map that holds, for every isotope of the ledger-derived concentration map \<open>C\<close> (the
  summed parcels converted by the pore volume), the solver's value with \<open>C\<close> as boundary
  concentration and \<open>C\<close> again as initial concentration, at the radial midpoint, with
  \<open>t0 = t\<close> and the time \<open>t + t\<close> (a 32-bit sum).
\<close>

theorem update_path_one_map:
  assumes "last_updated this \<le>s t"
  shows "\<exists>this'. transportNuclides this t = Inr this' \<and>
    (let sum_pair = sum_mats (wastes this);
         C = comp_to_conc_map (comp (fst sum_pair)) (snd sum_pair) (V_f this)
     in \<forall>tope. map_of (conc_hist this' t) tope =
          (if tope \<in> fst ` set C
           then Some (calculate_conc this C C (radial_midpoint (geom this)) tope t (t + t))
           else None))"
  using assms
  by (simp add: transportNuclides_def update_succeeds Let_def map_of_conc_profile
      calculate_conc_update_vec_hist)

text \<open>The instance at the cell with 10 kg of U-235 in a pore volume of 5, stepped at 7.\<close>

lemma conc_cell2:
  "comp_to_conc_map (comp (fst (sum_mats (wastes cell2)))) (snd (sum_mats (wastes cell2))) (V_f cell2)
     = [(92235, Fin 2)]"
  by (simp add: cell2_def cell0_def sum_mats_def add_iso_def at_m_def ledger_mass_def quantity_def
      comp_to_conc_map_def V_f_def V_T_def MatTools_V_f_def fl_simps)

theorem update_path_one_map_witness:
  "last_updated cell2 \<le>s 7 \<and>
   (\<exists>this'. transportNuclides cell2 7 = Inr this' \<and>
      map_of (conc_hist this' 7) 92235 =
        Some (calculate_conc cell2 [(92235, Fin 2)] [(92235, Fin 2)] (Fin 2) 92235 7 14))"
proof -
  have a: "last_updated cell2 \<le>s 7"
    by (simp add: cell2_def cell0_def word_sle_eq)
  have g: "radial_midpoint (geom cell2) = Fin 2"
    by (simp add: cell2_def cell0_def)
  from update_path_one_map [OF a] obtain this' where
    s: "transportNuclides cell2 7 = Inr this'" and
    m: "\<forall>tope. map_of (conc_hist this' 7) tope =
          (if tope \<in> fst ` set [(92235, Fin 2)]
           then Some (calculate_conc cell2 [(92235, Fin 2)] [(92235, Fin 2)] (Fin 2) tope 7 (7 + 7))
           else None)"
    unfolding Let_def conc_cell2 g by blast
  from m have "map_of (conc_hist this' 7) 92235 =
      Some (calculate_conc cell2 [(92235, Fin 2)] [(92235, Fin 2)] (Fin 2) 92235 7 14)"
    by simp
  with a s show ?thesis by blast
qed

section \<open>The boundary conditions\<close>

lemma map_of_neumann_bc:
  "map_of (neumann_bc this c_ext r_ext) tope =
     (if tope \<in> fst ` set (conc_hist this (last_updated this)) \<union> fst ` set c_ext
      then Some ((at_m c_ext tope - at_m (conc_hist this (last_updated this)) tope)
                 / (r_ext - radial_midpoint (geom this)))
      else None)"
proof -
  let ?ci = "conc_hist this (last_updated this)"
  let ?ri = "radial_midpoint (geom this)"
  let ?g = "\<lambda>i. calc_conc_grad (at_m c_ext i) (at_m ?ci i) r_ext ?ri"
  have first: "fold (\<lambda>(iso, _) to_ret.
                if count_m c_ext iso \<noteq> 0
                then assign_m iso (calc_conc_grad (at_m c_ext iso) (at_m ?ci iso) r_ext ?ri) to_ret
                else assign_m iso (calc_conc_grad 0 (at_m ?ci iso) r_ext ?ri) to_ret) ?ci []
      = fold (\<lambda>(iso, _) to_ret. assign_m iso (?g iso) to_ret) ?ci []"
    by (rule arg_cong [where f = "\<lambda>f. fold f ?ci []"])
      (auto simp add: fun_eq_iff count_m_zero_iff at_m_absent)
  have second: "\<And>acc. fold (\<lambda>(iso, _) to_ret.
                if count_m ?ci iso = 0
                then assign_m iso (calc_conc_grad (at_m c_ext iso) 0 r_ext ?ri) to_ret
                else to_ret) c_ext acc
      = fold (\<lambda>(iso, _) to_ret. if iso \<notin> fst ` set ?ci then assign_m iso (?g iso) to_ret else to_ret) c_ext acc"
    by (rule arg_cong [where f = "\<lambda>f. fold f c_ext acc" for acc])
      (auto simp add: fun_eq_iff count_m_zero_iff at_m_absent)
  show ?thesis
    unfolding neumann_bc_def Let_def first second
    by (simp add: map_of_fold_assign_if map_of_fold_assign calc_conc_grad_def)
qed

text \<open>
  Claim C6. The isotopes of the gradient map that \<open>neumann_bc\<close> returns are those of the
  internal concentration (the snapshot at the last update) together with those of
  \<open>c_ext\<close>, and the gradient of each is \<open>(c_ext - c_int) / (r_ext - r_int)\<close> with \<open>r_int\<close> the
  radial midpoint, where an isotope that one of the maps lacks has concentration 0 in it
  (\<open>at_m\<close> reads 0 at a missing key). The quotient is that of \<^verbatim>\<open>calc_conc_grad\<close> as the
  spec gives it.
\<close>

theorem neumann_bc_gradient:
  "fst ` set (neumann_bc this c_ext r_ext) =
     fst ` set (conc_hist this (last_updated this)) \<union> fst ` set c_ext
   \<and> map_of (neumann_bc this c_ext r_ext) tope =
     (let c_int = conc_hist this (last_updated this);
          r_int = radial_midpoint (geom this)
      in if tope \<in> fst ` set c_int \<union> fst ` set c_ext
         then Some ((at_m c_ext tope - at_m c_int tope) / (r_ext - r_int))
         else None)"
proof -
  have "dom (map_of (neumann_bc this c_ext r_ext)) =
      fst ` set (conc_hist this (last_updated this)) \<union> fst ` set c_ext"
    by (auto simp add: dom_def map_of_neumann_bc)
  then show ?thesis
    by (simp add: dom_map_of_conv_image_fst map_of_neumann_bc)
qed

text \<open>
  The instance at the cell with snapshot \<open>{92235: 2, 95241: 4}\<close> and midpoint 2, for
  \<open>c_ext = {92235: 5, 94239: 1}\<close> and \<open>r_ext = 3\<close>: one isotope in both maps, one in each only.
\<close>

theorem neumann_bc_gradient_witness:
  "map_of (neumann_bc cell3 [(92235, Fin 5), (94239, Fin 1)] (Fin 3)) 92235 = Some (Fin 3)
   \<and> map_of (neumann_bc cell3 [(92235, Fin 5), (94239, Fin 1)] (Fin 3)) 94239 = Some (Fin 1)
   \<and> map_of (neumann_bc cell3 [(92235, Fin 5), (94239, Fin 1)] (Fin 3)) 95241 = Some (Fin (- 4))
   \<and> fst ` set (neumann_bc cell3 [(92235, Fin 5), (94239, Fin 1)] (Fin 3)) = {92235, 94239, 95241}"
proof -
  have c: "conc_hist cell3 (last_updated cell3) = [(92235, Fin 2), (95241, Fin 4)]"
    by (simp add: cell3_def)
  have g: "radial_midpoint (geom cell3) = Fin 2"
    by (simp add: cell3_def cell1_def cell0_def)
  show ?thesis
    using neumann_bc_gradient [of cell3 "[(92235, Fin 5), (94239, Fin 1)]" "Fin 3" 92235]
      neumann_bc_gradient [of cell3 "[(92235, Fin 5), (94239, Fin 1)]" "Fin 3" 94239]
      neumann_bc_gradient [of cell3 "[(92235, Fin 5), (94239, Fin 1)]" "Fin 3" 95241]
    unfolding c g Let_def
    by (simp add: at_m_def minus_double_def fl_simps) blast
qed

text \<open>
  Claim C8. For each isotope of the Neumann gradient map, and for no other, \<open>cauchy_bc\<close>
  returns the flux \<open>- D(elem) * gradient + dirichlet * v\<close>, where \<open>elem\<close> is \<^verbatim>\<open>iso/1000\<close>
  (truncating), the gradient is the isotope's Neumann value and \<open>dirichlet\<close> is the
  cell's boundary concentration of the isotope.
\<close>

theorem cauchy_bc_flux:
  "map_of (cauchy_bc this c_ext r_ext) tope =
     map_option (\<lambda>grad. - D (mat_table this) (tope sdiv 1000) * grad + dirichlet_bc_iso this tope * v this)
       (map_of (neumann_bc this c_ext r_ext) tope)"
  unfolding cauchy_bc_def Let_def by (simp add: map_of_fold_insert)

text \<open>
  The instance at the same cell (\<open>D = 1\<close>, \<open>v = 1\<close>) for \<open>c_ext = {92235: 5}\<close> and \<open>r_ext = 3\<close>:
  the gradients are 3 and -4, the fluxes \<open>-3 + 2\<close> and \<open>4 + 4\<close>.
\<close>

theorem cauchy_bc_flux_witness:
  "map_of (cauchy_bc cell3 [(92235, Fin 5)] (Fin 3)) 92235 = Some (Fin (- 1))
   \<and> map_of (cauchy_bc cell3 [(92235, Fin 5)] (Fin 3)) 95241 = Some (Fin 8)
   \<and> map_of (cauchy_bc cell3 [(92235, Fin 5)] (Fin 3)) 94239 = None"
proof -
  have c: "conc_hist cell3 (last_updated cell3) = [(92235, Fin 2), (95241, Fin 4)]"
    by (simp add: cell3_def)
  have g: "radial_midpoint (geom cell3) = Fin 2"
    by (simp add: cell3_def cell1_def cell0_def)
  have d: "D (mat_table cell3) = (\<lambda>_. Fin 1)" and vv: "v cell3 = Fin 1"
    by (simp_all add: cell3_def cell1_def cell0_def)
  show ?thesis
    using cauchy_bc_flux [of cell3 "[(92235, Fin 5)]" "Fin 3" 92235]
      cauchy_bc_flux [of cell3 "[(92235, Fin 5)]" "Fin 3" 95241]
      cauchy_bc_flux [of cell3 "[(92235, Fin 5)]" "Fin 3" 94239]
    by (simp add: map_of_neumann_bc c g d vv dirichlet_bc_iso_def dirichlet_bc_def at_m_def
        minus_double_def fl_simps)
qed

section \<open>The source term\<close>

lemma assign_m_append:
  "(\<And>j. j \<in> fst ` set m \<Longrightarrow> j < k) \<Longrightarrow> assign_m k x m = m @ [(k, x)]"
proof (induction m)
  case Nil
  show ?case by simp
next
  case (Cons e m)
  obtain j w where e: "e = (j, w)" by (cases e)
  have "j < k" using Cons.prems [of j] by (simp add: e)
  moreover have "assign_m k x m = m @ [(k, x)]"
    by (rule Cons.IH) (simp add: Cons.prems)
  ultimately show ?case by (auto simp add: e)
qed

lemma fold_assign_sorted:
  "sorted_wrt (<) (map fst xs) \<Longrightarrow> fold (\<lambda>(i, c) acc. assign_m i c acc) xs [] = xs"
proof (induction xs rule: rev_induct)
  case Nil
  show ?case by simp
next
  case (snoc e xs)
  obtain k c where e: "e = (k, c)" by (cases e)
  from snoc.prems have srt: "sorted_wrt (<) (map fst xs)" and lt: "\<And>j. j \<in> fst ` set xs \<Longrightarrow> j < k"
    by (auto simp add: e sorted_wrt_append)
  from snoc.IH [OF srt] show ?case
    by (simp add: e assign_m_append lt)
qed

lemma fold_comp_and_mass:
  "fold (\<lambda>(iso, c) (comp_map, tot_mass). (assign_m iso c comp_map, tot_mass + c)) xs (cm, tot :: double)
     = (fold (\<lambda>(iso, c) acc. assign_m iso c acc) xs cm, foldl (+) tot (map snd xs))"
proof (induction xs arbitrary: cm tot)
  case Nil
  show ?case by simp
next
  case (Cons e xs)
  obtain k c where e: "e = (k, c)" by (cases e)
  show ?case by (simp add: e Cons.IH)
qed

text \<open>
  Claim C9. \<open>source_term_bc\<close> takes the snapshot at the last update scaled by the pore
  volume, the map \<open>scaled\<close> that \<^verbatim>\<open>scaleConcMap\<close> returns for the snapshot and \<open>V_f\<close> (a
  \<^verbatim>\<open>std::map\<close>: its isotopes ascending). It returns the isotope vector with the entries of
  \<open>scaled\<close> and, as total mass, their sum: the one the loop accumulates from \<open>0.0\<close>, isotope
  after isotope in ascending order, every addition an addition of doubles. By the
  helpers as the spec gives them, the entries of \<open>scaled\<close> are the concentrations of the
  snapshot times the pore volume, and the pore volume is the total volume times the
  porosity.
\<close>

theorem source_term_bc_scaled:
  assumes "sorted_wrt (<) (map fst (scaleConcMap (conc_hist this (last_updated this)) (V_f this)))"
  shows "(let scaled = scaleConcMap (conc_hist this (last_updated this)) (V_f this)
          in source_term_bc this = (IsoVector scaled, foldl (+) (Fin 0) (map snd scaled))
             \<and> scaled = map (\<lambda>(iso, c). (iso, c * V_f this)) (conc_hist this (last_updated this)))
    \<and> V_f this = MatTools_V_f (volume (geom this)) (porosity this)
    \<and> V_f this = volume (geom this) * porosity this"
proof -
  let ?scaled = "scaleConcMap (conc_hist this (last_updated this)) (V_f this)"
  have "source_term_bc this = (IsoVector ?scaled, foldl (+) (Fin 0) (map snd ?scaled))"
    unfolding source_term_bc_def Let_def
    by (simp add: fold_comp_and_mass fold_assign_sorted [OF assms])
  moreover have "?scaled = map (\<lambda>(iso, c). (iso, c * V_f this)) (conc_hist this (last_updated this))"
    by (simp only: scaleConcMap_def)
  moreover have "V_f this = MatTools_V_f (volume (geom this)) (porosity this)"
    by (simp only: V_f_def V_T_def)
  moreover have "V_f this = volume (geom this) * porosity this"
    by (simp only: V_f_def V_T_def MatTools_V_f_def)
  ultimately show ?thesis
    by (simp only: Let_def simp_thms)
qed

text \<open>
  The instance at the cell with snapshot \<open>{92235: 2, 95241: 4}\<close>, volume 10 and porosity
  1/2: masses 10 and 20, total 30.
\<close>

theorem source_term_bc_scaled_witness:
  "sorted_wrt (<) (map fst (scaleConcMap (conc_hist cell3 (last_updated cell3)) (V_f cell3)))
   \<and> scaleConcMap (conc_hist cell3 (last_updated cell3)) (V_f cell3)
       = [(92235, Fin 10), (95241, Fin 20)]
   \<and> source_term_bc cell3 = (IsoVector [(92235, Fin 10), (95241, Fin 20)], Fin 30)
   \<and> V_f cell3 = Fin 5"
proof -
  have v: "V_f cell3 = Fin 5"
    by (simp add: V_f_def V_T_def MatTools_V_f_def cell3_def cell1_def cell0_def fl_simps)
  have c: "scaleConcMap (conc_hist cell3 (last_updated cell3)) (V_f cell3)
      = [(92235, Fin 10), (95241, Fin 20)]"
    unfolding v by (simp add: cell3_def scaleConcMap_def fl_simps)
  have a: "sorted_wrt (<) (map fst (scaleConcMap (conc_hist cell3 (last_updated cell3)) (V_f cell3)))"
    by (simp add: c)
  from source_term_bc_scaled [OF a]
  have "source_term_bc cell3 = (IsoVector [(92235, Fin 10), (95241, Fin 20)], Fin 30)"
    unfolding Let_def c by (simp add: fl_simps)
  with a c v show ?thesis by simp
qed

section \<open>The trapezoidal rule on a constant profile\<close>

text \<open>
  Claim C5 says that \<open>trap_rule\<close> integrates a constant profile \<open>k\<close> over \<open>[a, b]\<close> to
  \<open>k (b - a)\<close>. The code does not: the two endpoint samples enter the sum unscaled, and
  an interior sample is stored at the index its radius truncates to, over an endpoint
  term or outside the vector. On \<open>[0, 1]\<close> with the three samples at 0, 1/2 and 1, all of
  concentration 1, the interior term \<open>2 * (1/6) * 1\<close> replaces the term of the sample at 0
  and the result is \<open>1/3 + 1\<close>, not 1: in doubles \<^verbatim>\<open>6004799503160661 / 2^52\<close>, which is
  \<^verbatim>\<open>1.3333333333333333\<close>.
\<close>

theorem trap_rule_constant_profile:
  "trap_rule (Fin 0) (Fin 1) 3
     [(Fin 0, [(92235, Fin 1)]), (Fin (1 / 2), [(92235, Fin 1)]), (Fin 1, [(92235, Fin 1)])]
   = Inr [(92235, Fin (6004799503160661 / 4503599627370496))]"
  by (simp add: trap_rule_def Let_def erase_m_def of_cint_def minus_double_def scaleConcMap_def
      addConcMaps_def at_m_def fl_simps fl_sixth fl_two_sixths fl_four_thirds)

text \<open>
  On \<open>[4, 5]\<close> the interior radius 9/2 is the index 4 of a vector of two elements; and
  with the two endpoint samples alone the result is their plain sum.
\<close>

lemma trap_rule_outside_vector:
  "trap_rule (Fin 4) (Fin 5) 3
     [(Fin 4, [(92235, Fin 1)]), (Fin (9 / 2), [(92235, Fin 1)]), (Fin 5, [(92235, Fin 1)])]
   = Inl UndefinedBehaviour"
  by (simp add: trap_rule_def Let_def erase_m_def of_cint_def minus_double_def scaleConcMap_def
      addConcMaps_def at_m_def fl_simps fl_sixth)

lemma trap_rule_two_samples:
  "trap_rule (Fin 0) (Fin 1) 2 [(Fin 0, [(92235, Fin 1)]), (Fin 1, [(92235, Fin 1)])]
   = Inr [(92235, Fin 2)]"
  by (simp add: trap_rule_def Let_def erase_m_def of_cint_def minus_double_def scaleConcMap_def
      addConcMaps_def at_m_def fl_simps)

section \<open>Mass conservation of the ledger\<close>

subsection \<open>Draining one isotope\<close>

lemma iso_mass_Nil: "iso_mass [] i = 0"
  by (simp add: iso_mass_def)

lemma iso_mass_Cons: "iso_mass ((j, m) # es) i = (if j = i then m + iso_mass es i else iso_mass es i)"
  by (simp add: iso_mass_def)

lemma quantity_Cons: "quantity ((j, m) # es) = m + quantity es"
  by (simp add: quantity_def)

lemma nonneg_Cons: "nonneg ((j, m) # es) = (0 \<le> m \<and> nonneg es)"
  by (simp add: nonneg_def)

lemma iso_mass_nonneg: "nonneg p \<Longrightarrow> 0 \<le> iso_mass p i"
  by (induction p) (auto simp add: iso_mass_Nil iso_mass_Cons nonneg_Cons)

lemma quantity_nonneg: "nonneg p \<Longrightarrow> 0 \<le> quantity p"
  by (induction p) (auto simp add: quantity_def nonneg_def)

lemma take_then_rest:
  fixes m d R :: real
  assumes "0 \<le> m" "0 \<le> R" "0 \<le> d"
  shows "min m d + min (d - min m d) R = min d (m + R)"
  using assms by (simp add: min_def)

lemma drain_parcel_facts:
  assumes "0 \<le> d" and "nonneg p"
  shows "nonneg (drain_parcel i d p)
    \<and> quantity (drain_parcel i d p) = quantity p - min d (iso_mass p i)
    \<and> iso_mass (drain_parcel i d p) i = iso_mass p i - min d (iso_mass p i)
    \<and> (j \<noteq> i \<longrightarrow> iso_mass (drain_parcel i d p) j = iso_mass p j)"
  using assms
proof (induction p arbitrary: d)
  case Nil
  then show ?case by (simp add: iso_mass_Nil nonneg_def quantity_def)
next
  case (Cons e es)
  obtain k m where e: "e = (k, m)" by (cases e)
  from Cons.prems have m: "0 \<le> m" and es: "nonneg es"
    by (simp_all add: e nonneg_Cons)
  have R: "0 \<le> iso_mass es i" using es by (rule iso_mass_nonneg)
  show ?case
  proof (cases "k = i")
    case True
    have d': "0 \<le> d - min m d" by simp
    note IH = Cons.IH [OF d' es]
    have split: "min m d + min (d - min m d) (iso_mass es i) = min d (m + iso_mass es i)"
      using m R Cons.prems(1) by (rule take_then_rest)
    have "0 \<le> m - min m d" by simp
    with IH split True show ?thesis
      by (simp add: e iso_mass_Cons quantity_Cons nonneg_Cons)
  next
    case False
    note IH = Cons.IH [OF Cons.prems(1) es]
    with False m show ?thesis
      by (simp add: e iso_mass_Cons quantity_Cons nonneg_Cons)
  qed
qed

lemma available_Cons: "available (p # ps) i = iso_mass p i + available ps i"
  by (simp add: available_def)

lemma available_nonneg: "nonneg_ledger ws \<Longrightarrow> 0 \<le> available ws i"
  by (induction ws) (auto simp add: available_def nonneg_ledger_def iso_mass_nonneg)

lemma ledger_mass_nonneg: "nonneg_ledger ws \<Longrightarrow> 0 \<le> ledger_mass ws"
  by (induction ws) (auto simp add: ledger_mass_def nonneg_ledger_def quantity_nonneg)

lemma drain_facts:
  assumes "0 \<le> d" and "nonneg_ledger ws"
  shows "nonneg_ledger (drain i d ws)
    \<and> ledger_mass (drain i d ws) = ledger_mass ws - min d (available ws i)
    \<and> available (drain i d ws) i = available ws i - min d (available ws i)
    \<and> (j \<noteq> i \<longrightarrow> available (drain i d ws) j = available ws j)"
  using assms
proof (induction ws arbitrary: d)
  case Nil
  then show ?case by (simp add: nonneg_ledger_def ledger_mass_def available_def)
next
  case (Cons p ps)
  from Cons.prems have p: "nonneg p" and ps: "nonneg_ledger ps"
    by (simp_all add: nonneg_ledger_def)
  note P = drain_parcel_facts [OF Cons.prems(1) p, of i j]
  let ?x = "min d (iso_mass p i)"
  have taken: "iso_mass p i - iso_mass (drain_parcel i d p) i = ?x"
    using P by simp
  have d': "0 \<le> d - ?x" by simp
  note IH = Cons.IH [OF d' ps]
  have a: "0 \<le> iso_mass p i" using p by (rule iso_mass_nonneg)
  have A: "0 \<le> available ps i" using ps by (rule available_nonneg)
  have "min (iso_mass p i) d + min (d - min (iso_mass p i) d) (available ps i)
      = min d (iso_mass p i + available ps i)"
    using a A Cons.prems(1) by (rule take_then_rest)
  then have split: "?x + min (d - ?x) (available ps i) = min d (iso_mass p i + available ps i)"
    by (simp add: min.commute)
  from P IH split show ?case
    by (simp add: taken available_Cons ledger_mass_def nonneg_ledger_def)
qed

lemma fold_drain_facts:
  assumes "nonneg_ledger ws" and "distinct (map fst ds)" and "nonneg ds"
    and "\<not> list_ex (\<lambda>(i, m). available ws i < m) ds"
  shows "nonneg_ledger (fold (\<lambda>(i, m) l. drain i m l) ds ws)
    \<and> ledger_mass (fold (\<lambda>(i, m) l. drain i m l) ds ws) = ledger_mass ws - quantity ds"
  using assms
proof (induction ds arbitrary: ws)
  case Nil
  then show ?case by (simp add: quantity_def)
next
  case (Cons e ds)
  obtain i m where e: "e = (i, m)" by (cases e)
  from Cons.prems have m: "0 \<le> m" and ds: "nonneg ds"
    and enough: "m \<le> available ws i"
    and rest: "\<not> list_ex (\<lambda>(j, n). available ws j < n) ds"
    and fresh: "i \<notin> fst ` set ds" and dist: "distinct (map fst ds)"
    by (simp_all add: e nonneg_Cons not_less)
  note F = drain_facts [OF m Cons.prems(1), of i]
  have nn: "nonneg_ledger (drain i m ws)" using F by simp
  have mass: "ledger_mass (drain i m ws) = ledger_mass ws - m"
    using F enough by (simp add: min_def)
  have same: "\<And>j. j \<noteq> i \<Longrightarrow> available (drain i m ws) j = available ws j"
    using drain_facts [OF m Cons.prems(1)] by blast
  have rest': "\<not> list_ex (\<lambda>(j, n). available (drain i m ws) j < n) ds"
  proof
    assume "list_ex (\<lambda>(j, n). available (drain i m ws) j < n) ds"
    then obtain j n where jn: "(j, n) \<in> set ds" and low: "available (drain i m ws) j < n"
      by (auto simp add: list_ex_iff)
    from jn fresh have "j \<noteq> i" by force
    with low same have "available ws j < n" by simp
    with jn rest show False by (auto simp add: list_ex_iff)
  qed
  from Cons.IH [OF nn dist ds rest'] mass show ?case
    by (simp add: e quantity_Cons)
qed

lemma demanded_facts:
  assumes "0 \<le> kg" and "nonneg comp_to_rem"
  shows "distinct (map fst (demanded comp_to_rem kg)) \<and> nonneg (demanded comp_to_rem kg)"
proof -
  have "\<And>i. 0 \<le> kg * iso_mass comp_to_rem i"
    using assms by (simp add: iso_mass_nonneg)
  then show ?thesis
    by (simp add: demanded_def nonneg_def list_all_iff o_def)
qed

lemma MatTools_extract_facts:
  assumes "MatTools_extract comp_to_rem kg ws = Inr (to_ret, ws')"
    and "0 \<le> kg" and "nonneg comp_to_rem" and "nonneg_ledger ws"
  shows "nonneg_ledger ws' \<and> ledger_mass ws' = ledger_mass ws - quantity to_ret"
proof -
  let ?ds = "demanded comp_to_rem kg"
  from assms(1) have ok: "\<not> list_ex (\<lambda>(i, m). available ws i < m) ?ds"
    and r: "to_ret = ?ds" and w: "ws' = fold (\<lambda>(i, m) l. drain i m l) ?ds ws"
    by (auto simp add: MatTools_extract_def Let_def split: if_splits)
  from demanded_facts [OF assms(2,3)] have "distinct (map fst ?ds)" and "nonneg ?ds"
    by simp_all
  from fold_drain_facts [OF assms(4) this ok] show ?thesis
    by (simp add: r w)
qed

lemma update_wastes: "update this t = Inr this' \<Longrightarrow> wastes this' = wastes this"
  by (auto simp add: update_def update_conc_hist_def update_vec_hist_def set_last_updated_def
      Let_def split: if_splits sum.splits)

lemma extract_comp_ledger:
  assumes "extract_comp this comp_to_rem kg = Inr (to_ret, this')"
  shows "MatTools_extract comp_to_rem kg (wastes this) = Inr (to_ret, wastes this')"
proof (cases "MatTools_extract comp_to_rem kg (wastes this)")
  case (Inl err)
  with assms show ?thesis by (simp add: extract_comp_def)
next
  case (Inr res)
  obtain r ws where res: "res = (r, ws)" by (cases res)
  from assms Inr res
  have u: "update (this\<lparr>wastes := ws\<rparr>) (last_updated (this\<lparr>wastes := ws\<rparr>)) = Inr this'"
    and r: "r = to_ret"
    by (auto simp add: extract_comp_def Let_def split: sum.splits)
  from update_wastes [OF u] have "wastes this' = ws" by simp
  with Inr res r show ?thesis by simp
qed

lemma run_ops_ledger:
  assumes "nonneg_ledger (wastes this)" and "list_all wf_op ops"
    and "run_ops this ops = (this', a, e)"
  shows "nonneg_ledger (wastes this')
    \<and> ledger_mass (wastes this') = ledger_mass (wastes this) + a - e"
  using assms
proof (induction ops arbitrary: this a e)
  case Nil
  then show ?case by simp
next
  case (Cons x ops)
  show ?case
  proof (cases x)
    case (Absorb p)
    obtain a1 e1 where r: "run_ops (absorb this p) ops = (this', a1, e1)"
      and a: "a = quantity p + a1" and e: "e = e1"
      using Cons.prems(3) by (auto simp add: Absorb split: prod.splits)
    from Cons.prems(1,2) have nn: "nonneg_ledger (wastes (absorb this p))"
      by (simp add: Absorb absorb_def nonneg_ledger_def nonneg_def)
    from Cons.prems(2) have wf: "list_all wf_op ops" by simp
    from Cons.IH [OF nn wf r] show ?thesis
      by (simp add: a e absorb_def ledger_mass_def)
  next
    case (Extract comp_to_rem kg)
    from Cons.prems(2) have wf: "list_all wf_op ops" and kg: "0 \<le> kg" and c: "nonneg comp_to_rem"
      by (simp_all add: Extract nonneg_def)
    show ?thesis
    proof (cases "extract_comp this comp_to_rem kg")
      case (Inl err)
      with Cons.prems(3) have "run_ops this ops = (this', a, e)"
        by (simp add: Extract)
      from Cons.IH [OF Cons.prems(1) wf this] show ?thesis .
    next
      case (Inr res)
      obtain to_ret this1 where res: "res = (to_ret, this1)" by (cases res)
      obtain a1 e1 where r: "run_ops this1 ops = (this', a1, e1)"
        and a: "a = a1" and e: "e = quantity to_ret + e1"
        using Cons.prems(3) by (auto simp add: Extract Inr res split: prod.splits)
      from Inr res have "MatTools_extract comp_to_rem kg (wastes this) = Inr (to_ret, wastes this1)"
        by (simp add: extract_comp_ledger)
      from MatTools_extract_facts [OF this kg c Cons.prems(1)]
      have nn: "nonneg_ledger (wastes this1)"
        and mass: "ledger_mass (wastes this1) = ledger_mass (wastes this) - quantity to_ret"
        by simp_all
      from Cons.IH [OF nn wf r] mass show ?thesis
        by (simp add: a e)
    qed
  qed
qed

lemma sle_refl: "(t::cint) \<le>s t"
  by (simp add: word_sle_eq)

lemma extract_comp_ok:
  assumes "MatTools_extract comp_to_rem kg (wastes this) = Inr (to_ret, ws)"
  shows "\<exists>this'. extract_comp this comp_to_rem kg = Inr (to_ret, this') \<and> wastes this' = ws"
proof -
  let ?c = "this\<lparr>wastes := ws\<rparr>"
  have "last_updated ?c \<le>s last_updated ?c" by (rule sle_refl)
  from update_succeeds [OF this] obtain this' where u: "update ?c (last_updated ?c) = Inr this'"
    by blast
  from update_wastes [OF u] have "wastes this' = ws" by simp
  with u assms show ?thesis
    by (simp add: extract_comp_def Let_def)
qed

lemma extract_comp_fails:
  assumes "MatTools_extract comp_to_rem kg (wastes this) = Inl err"
  shows "extract_comp this comp_to_rem kg = Inl err"
  using assms by (simp add: extract_comp_def)

text \<open>
  Claim C1. Along every sequence of absorb and extract operations on a cell created
  with an empty ledger, the total mass the ledger holds (what \<open>sum_mats\<close> returns for it)
  is the mass absorbed minus the mass extracted, and it is not negative. The parcels
  absorbed carry no negative mass, and an extraction asks for a non-negative mass in
  non-negative fractions; an extraction that fails with InsufficientInventory extracts
  nothing.
\<close>

theorem ledger_mass_conservation:
  assumes "wastes this = []" and "list_all wf_op ops"
    and "run_ops this ops = (this', absorbed, extracted)"
  shows "snd (sum_mats (wastes this')) = Fin (absorbed - extracted)
    \<and> 0 \<le> absorbed - extracted"
proof -
  have "nonneg_ledger (wastes this)"
    by (simp add: assms(1) nonneg_ledger_def)
  from run_ops_ledger [OF this assms(2,3)]
  have nn: "nonneg_ledger (wastes this')"
    and m: "ledger_mass (wastes this') = absorbed - extracted"
    by (simp_all add: assms(1) ledger_mass_def)
  from ledger_mass_nonneg [OF nn] m show ?thesis
    by (simp add: sum_mats_def)
qed

text \<open>
  The instance: 10 kg of U-235 absorbed, 4 kg extracted, an extraction of 7 kg refused
  (6 kg are left), 2 kg of Am-241 absorbed. The ledger holds \<open>12 - 4 = 8\<close> kg.
\<close>

theorem ledger_mass_conservation_witness:
  "wastes cell0 = []
   \<and> list_all wf_op [Absorb [(92235, 10)], Extract [(92235, 1)] 4, Extract [(92235, 1)] 7,
        Absorb [(95241, 2)]]
   \<and> (\<exists>this'. run_ops cell0 [Absorb [(92235, 10)], Extract [(92235, 1)] 4,
          Extract [(92235, 1)] 7, Absorb [(95241, 2)]] = (this', 12, 4)
        \<and> snd (sum_mats (wastes this')) = Fin 8)"
proof -
  let ?ops = "[Absorb [(92235, 10)], Extract [(92235, 1)] 4, Extract [(92235, 1)] 7,
        Absorb [(95241, 2)]]"
  let ?c1 = "absorb cell0 [(92235, 10)]"
  have h1: "wastes cell0 = []" by (simp add: cell0_def)
  have h2: "list_all wf_op ?ops" by simp
  have w1: "wastes ?c1 = [[(92235, 10)]]" by (simp add: absorb_def h1)
  have "MatTools_extract [(92235, 1)] 4 (wastes ?c1) = Inr ([(92235, 4)], [[(92235, 6)]])"
    by (simp add: w1 MatTools_extract_def demanded_def iso_mass_def available_def Let_def)
  from extract_comp_ok [OF this] obtain c2 where
    e1: "extract_comp ?c1 [(92235, 1)] 4 = Inr ([(92235, 4)], c2)" and w2: "wastes c2 = [[(92235, 6)]]"
    by blast
  have "MatTools_extract [(92235, 1)] 7 (wastes c2) = Inl InsufficientInventory"
    by (simp add: w2 MatTools_extract_def demanded_def iso_mass_def available_def Let_def)
  then have e2: "extract_comp c2 [(92235, 1)] 7 = Inl InsufficientInventory"
    by (rule extract_comp_fails)
  have run: "run_ops cell0 ?ops = (absorb c2 [(95241, 2)], 12, 4)"
    by (simp add: e1 e2 quantity_def)
  from ledger_mass_conservation [OF h1 h2 run]
  have "snd (sum_mats (wastes (absorb c2 [(95241, 2)]))) = Fin 8" by simp
  with h1 h2 run show ?thesis by blast
qed

end
